theory Spec2Isabelle
  imports Main
begin

section \<open>Tokens, trivia and syntax nodes\<close>

text \<open>
  Modelled from the spec: \<open>Token.h\<close>, \<open>SyntaxNode.h\<close>, \<open>Diagnostics.h\<close> and
  \<open>SourceLocation.h\<close> are included by the parser base but are not part of the sources at
  hand, so the data model follows section 3 of the specification. The only enumerators the
  parser base itself names are \<open>TokenKind::EndOfFile\<close>, \<open>TriviaKind::Unknown\<close> (the kind
  of a default-constructed, empty \<open>Trivia\<close>) and \<open>TriviaKind::SkippedTokens\<close>.
\<close>

datatype TokenKind =
    EndOfFile
  | Identifier
  | OpenParenthesis
  | CloseParenthesis
  | Comma
  | Semicolon
  | Percent
  | OtherKind nat

datatype TriviaKind =
    Unknown
  | Whitespace
  | LineComment
  | BlockComment
  | Directive
  | SkippedTokens

type_synonym SourceLocation = nat

text \<open>
  A token carries its kind, location, text, ordered leading trivia and the ``missing'' flag.
  A trivium is tagged by its kind; \<open>SkippedTokens\<close> carries a run of tokens, every other
  kind a raw text slice.
\<close>

datatype Token =
  Token (kind: TokenKind) (location: SourceLocation) (rawText: string)
        (trivia: "Trivia list") (isMissing: bool)
and Trivia =
  Trivia (triviaKind: TriviaKind) (triviaText: string) (triviaTokens: "Token list")

text \<open>\<open>Trivia()\<close>: the default-constructed, empty trivium.\<close>

definition emptyTrivia :: Trivia where
  "emptyTrivia = Trivia Unknown [] []"

text \<open>\<open>Trivia(TriviaKind::SkippedTokens, tokens)\<close>.\<close>

definition skippedTrivia :: "Token list \<Rightarrow> Trivia" where
  "skippedTrivia toks = Trivia SkippedTokens [] toks"

text \<open>\<open>token.withTrivia(alloc, trivia)\<close>: the same token with other leading trivia.\<close>

definition withTrivia :: "Token \<Rightarrow> Trivia list \<Rightarrow> Token" where
  "withTrivia t trv = Token (kind t) (location t) (rawText t) trv (isMissing t)"

datatype SyntaxNode =
  SyntaxNode (nodeKind: nat) (children: "TokenOrSyntax list")
and TokenOrSyntax =
    TOS_Token Token
  | TOS_Node SyntaxNode

datatype DiagCode = ExpectedToken | DiagCode nat

datatype Diagnostic =
  Diagnostic (code: DiagCode) (diagLocation: SourceLocation) (arguments: "TokenKind list")

datatype SkipAction = Continue | Abort

section \<open>The token window\<close>

text \<open>
  Modelled from the spec: the bodies of \<open>Window::addNew\<close>, \<open>Window::moveToNext\<close>,
  \<open>peek\<close>, \<open>consume\<close>, \<open>addError\<close>, \<open>expect\<close> and \<open>createExpectedToken\<close> are only declared
  in the header. The window is the list of tokens the source has yet to yield, the first
  being the current token. Past the last token the source keeps yielding an end-of-file
  token (kind \<open>EndOfFile\<close>, no text, no trivia) at the end location, so repeated \<open>peek\<close> at
  the end returns the same token.
\<close>

record ParserBase =
  window :: "Token list"
  sourceEnd :: SourceLocation
  lastConsumed :: "Token option"
  diagnostics :: "Diagnostic list"

fun currentOf :: "Token list \<Rightarrow> SourceLocation \<Rightarrow> Token" where
  "currentOf [] end = Token EndOfFile end [] [] False"
| "currentOf (t # ts) end = t"

definition peek :: "ParserBase \<Rightarrow> Token" where
  "peek p = currentOf (window p) (sourceEnd p)"

definition consume :: "ParserBase \<Rightarrow> Token \<times> ParserBase" where
  "consume p = (peek p,
                p\<lparr>window := (case window p of [] \<Rightarrow> [] | _ # ts \<Rightarrow> ts),
                  lastConsumed := Some (peek p)\<rparr>)"

definition addError :: "DiagCode \<Rightarrow> SourceLocation \<Rightarrow> ParserBase \<Rightarrow> ParserBase" where
  "addError c loc p = p\<lparr>diagnostics := diagnostics p @ [Diagnostic c loc []]\<rparr>"

text \<open>
  Modelled from the spec: \<open>createExpectedToken(actual, expected)\<close> emits an ``expected X''
  diagnostic at the current location and returns a synthetic token of the expected kind
  with empty text, flagged as missing, carrying the trivia of the actual token.
\<close>

definition createExpectedToken :: "Token \<Rightarrow> TokenKind \<Rightarrow> ParserBase \<Rightarrow> Token \<times> ParserBase" where
  "createExpectedToken actual expected p =
     (Token expected (location actual) [] (trivia actual) True,
      p\<lparr>diagnostics := diagnostics p @ [Diagnostic ExpectedToken (location actual) [expected]]\<rparr>)"

text \<open>
  Modelled from the spec: \<open>expect(kind)\<close> consumes a matching token; on mismatch it returns
  the missing token of \<open>createExpectedToken\<close> and consumes nothing.
\<close>

definition expect :: "TokenKind \<Rightarrow> ParserBase \<Rightarrow> Token \<times> ParserBase" where
  "expect k p =
     (let result = peek p in
      if kind result \<noteq> k then createExpectedToken result k p
      else consume p)"



section \<open>Skipping bad tokens\<close>

text \<open>
  The \<open>while\<close> loop of \<open>skipBadTokens\<close>; \<open>error\<close> and \<open>tokens\<close> are its two local variables.
  The loop leaves through the loop condition (\<open>Continue\<close>) or through \<open>break\<close> (\<open>Abort\<close>).
\<close>

function skipBadTokensLoop ::
  "(TokenKind \<Rightarrow> bool) \<Rightarrow> (TokenKind \<Rightarrow> bool) \<Rightarrow> DiagCode \<Rightarrow> bool \<Rightarrow> Token list \<Rightarrow> ParserBase
     \<Rightarrow> SkipAction \<times> Token list \<times> ParserBase" where
  "skipBadTokensLoop IsExpected IsAbort c error toks p =
     (if \<not> IsExpected (kind (peek p)) then
        (if kind (peek p) = EndOfFile \<or> IsAbort (kind (peek p))
         then (Abort, toks, if \<not> error then addError c (location (peek p)) p else p)
         else skipBadTokensLoop IsExpected IsAbort c True
                (toks @ [fst (consume (if \<not> error then addError c (location (peek p)) p else p))])
                (snd (consume (if \<not> error then addError c (location (peek p)) p else p))))
      else (Continue, toks, p))"
  by pat_completeness auto
termination
  by (relation "measure (\<lambda>(IsExpected, IsAbort, c, error, toks, p). length (window p))")
     (auto simp: peek_def consume_def addError_def split: list.splits)

text \<open>
  \<open>skipBadTokens\<close> returns the action together with the value it assigns to
  \<open>*skippedTokens\<close>.
\<close>

definition skipBadTokens ::
  "(TokenKind \<Rightarrow> bool) \<Rightarrow> (TokenKind \<Rightarrow> bool) \<Rightarrow> DiagCode \<Rightarrow> ParserBase
     \<Rightarrow> SkipAction \<times> Trivia \<times> ParserBase" where
  "skipBadTokens IsExpected IsAbort c p =
     (case skipBadTokensLoop IsExpected IsAbort c False [] p of
        (result, toks, p') \<Rightarrow>
          (result, if toks = [] then emptyTrivia else skippedTrivia toks, p'))"

section \<open>Trivia propagation\<close>

text \<open>
  Modelled from the spec: the bodies of the \<open>prependTrivia\<close> overloads are only declared in
  the header. \<open>prependTrivia(Token, trivia)\<close> inserts \<open>trivia\<close> before the existing leading
  trivia of the token and is a no-op if \<open>trivia\<close> is empty; the accumulator is passed by
  pointer and is cleared once it has been attached. The emptiness test is the one the
  header's own \<open>prependTrivia(ArrayRef<T*>, Trivia*)\<close> uses: \<open>trivia->kind != Unknown\<close>.
  The functions return the target together with the new value of \<open>*trivia\<close>.
\<close>

definition prependTrivia_Token :: "Token \<Rightarrow> Trivia \<Rightarrow> Token \<times> Trivia" where
  "prependTrivia_Token token tr =
     (if triviaKind tr \<noteq> Unknown
      then (withTrivia token (tr # trivia token), emptyTrivia)
      else (token, tr))"

text \<open>The left-most descendant token of a node, if the node has any token.\<close>

fun getFirstToken :: "SyntaxNode \<Rightarrow> Token option"
and getFirstTokenOfList :: "TokenOrSyntax list \<Rightarrow> Token option" where
  "getFirstToken (SyntaxNode k cs) = getFirstTokenOfList cs"
| "getFirstTokenOfList [] = None"
| "getFirstTokenOfList (TOS_Token t # cs) = Some t"
| "getFirstTokenOfList (TOS_Node n # cs) =
     (case getFirstToken n of Some t \<Rightarrow> Some t | None \<Rightarrow> getFirstTokenOfList cs)"

text \<open>Prepending a trivium to the left-most descendant token; \<open>None\<close> if there is none.\<close>

fun prependToFirstToken :: "Trivia \<Rightarrow> SyntaxNode \<Rightarrow> SyntaxNode option"
and prependToFirstTokenOfList :: "Trivia \<Rightarrow> TokenOrSyntax list \<Rightarrow> TokenOrSyntax list option" where
  "prependToFirstToken tr (SyntaxNode k cs) =
     (case prependToFirstTokenOfList tr cs of
        None \<Rightarrow> None
      | Some cs' \<Rightarrow> Some (SyntaxNode k cs'))"
| "prependToFirstTokenOfList tr [] = None"
| "prependToFirstTokenOfList tr (TOS_Token t # cs) =
     Some (TOS_Token (withTrivia t (tr # trivia t)) # cs)"
| "prependToFirstTokenOfList tr (TOS_Node n # cs) =
     (case prependToFirstToken tr n of
        Some n' \<Rightarrow> Some (TOS_Node n' # cs)
      | None \<Rightarrow>
          (case prependToFirstTokenOfList tr cs of
             None \<Rightarrow> None
           | Some cs' \<Rightarrow> Some (TOS_Node n # cs')))"

text \<open>
  \<open>prependTrivia(SyntaxNode*, trivia)\<close>: as for a token, on the left-most descendant token
  of the node. A node without any token has nothing to attach the trivium to, which then
  stays pending.
\<close>

definition prependTrivia_Node :: "SyntaxNode \<Rightarrow> Trivia \<Rightarrow> SyntaxNode \<times> Trivia" where
  "prependTrivia_Node node tr =
     (if triviaKind tr \<noteq> Unknown
      then (case prependToFirstToken tr node of
              Some node' \<Rightarrow> (node', emptyTrivia)
            | None \<Rightarrow> (node, tr))
      else (node, tr))"

section \<open>The separated-list recognizer\<close>

text \<open>
  \<open>parseItem\<close> is the callable the list parser is given: it takes \<open>isFirst\<close>, may consume
  tokens and report diagnostics, and returns the parsed item.

  The inner \<open>while (true)\<close> of \<open>parseSeparatedList\<close>, entered after the first item. It
  need not terminate for an arbitrary \<open>parseItem\<close>, so not returning is the value \<open>None\<close>.
\<close>

type_synonym ParserFunc = "bool \<Rightarrow> ParserBase \<Rightarrow> SyntaxNode \<times> ParserBase"

partial_function (option) separatorLoop ::
  "(TokenKind \<Rightarrow> bool) \<Rightarrow> (TokenKind \<Rightarrow> bool) \<Rightarrow> ParserFunc \<Rightarrow> TokenKind \<Rightarrow> DiagCode
     \<Rightarrow> TokenOrSyntax list \<Rightarrow> Trivia \<Rightarrow> ParserBase
     \<Rightarrow> (TokenOrSyntax list \<times> Trivia \<times> ParserBase) option" where
  "separatorLoop IsExpected IsEnd parseItem separatorKind c buffer skippedTokens p =
     (if IsEnd (kind (peek p)) then Some (buffer, skippedTokens, p)
      else if IsExpected (kind (peek p)) then
        (case expect separatorKind p of (sep, p1) \<Rightarrow>
         case prependTrivia_Token sep skippedTokens of (sep', skipped1) \<Rightarrow>
         case parseItem False p1 of (item, p2) \<Rightarrow>
         case prependTrivia_Node item skipped1 of (item', skipped2) \<Rightarrow>
           separatorLoop IsExpected IsEnd parseItem separatorKind c
             (buffer @ [TOS_Token sep', TOS_Node item']) skipped2 p2)
      else
        (case skipBadTokens IsExpected IsEnd c p of (action, skipped1, p1) \<Rightarrow>
           if action = Abort then Some (buffer, skipped1, p1)
           else separatorLoop IsExpected IsEnd parseItem separatorKind c buffer skipped1 p1))"

text \<open>The outer \<open>while (true)\<close>, entered when the list is not empty.\<close>

partial_function (option) itemLoop ::
  "(TokenKind \<Rightarrow> bool) \<Rightarrow> (TokenKind \<Rightarrow> bool) \<Rightarrow> ParserFunc \<Rightarrow> TokenKind \<Rightarrow> DiagCode
     \<Rightarrow> TokenOrSyntax list \<Rightarrow> Trivia \<Rightarrow> ParserBase
     \<Rightarrow> (TokenOrSyntax list \<times> Trivia \<times> ParserBase) option" where
  "itemLoop IsExpected IsEnd parseItem separatorKind c buffer skippedTokens p =
     (if IsExpected (kind (peek p)) then
        (case parseItem True p of (item, p1) \<Rightarrow>
         case prependTrivia_Node item skippedTokens of (item', skipped1) \<Rightarrow>
           separatorLoop IsExpected IsEnd parseItem separatorKind c
             (buffer @ [TOS_Node item']) skipped1 p1)
      else
        (case skipBadTokens IsExpected IsEnd c p of (action, skipped1, p1) \<Rightarrow>
           if action = Abort then Some (buffer, skipped1, p1)
           else itemLoop IsExpected IsEnd parseItem separatorKind c buffer skipped1 p1))"

declare separatorLoop.simps [code] itemLoop.simps [code]

text \<open>
  The first part of \<open>parseSeparatedList(buffer, closeKind, separatorKind, closeToken, code,
  parseItem)\<close>: the local \<open>skippedTokens\<close> starts empty, and the loops are entered unless
  the current token already ends the list. The result is the buffer, the accumulator and
  the parser in front of the close token.
\<close>

definition parseListItems ::
  "(TokenKind \<Rightarrow> bool) \<Rightarrow> (TokenKind \<Rightarrow> bool) \<Rightarrow> ParserFunc \<Rightarrow> TokenOrSyntax list
     \<Rightarrow> TokenKind \<Rightarrow> DiagCode \<Rightarrow> ParserBase
     \<Rightarrow> (TokenOrSyntax list \<times> Trivia \<times> ParserBase) option" where
  "parseListItems IsExpected IsEnd parseItem buffer separatorKind c p =
     (if \<not> IsEnd (kind (peek p))
      then itemLoop IsExpected IsEnd parseItem separatorKind c buffer emptyTrivia p
      else Some (buffer, emptyTrivia, p))"

text \<open>
  The whole of it, ending with \<open>closeToken = prependTrivia(expect(closeKind),
  &skippedTokens)\<close>; the result is the buffer, the close token and the parser afterwards.
\<close>

definition parseSeparatedListInto ::
  "(TokenKind \<Rightarrow> bool) \<Rightarrow> (TokenKind \<Rightarrow> bool) \<Rightarrow> ParserFunc \<Rightarrow> TokenOrSyntax list
     \<Rightarrow> TokenKind \<Rightarrow> TokenKind \<Rightarrow> DiagCode \<Rightarrow> ParserBase
     \<Rightarrow> (TokenOrSyntax list \<times> Token \<times> ParserBase) option" where
  "parseSeparatedListInto IsExpected IsEnd parseItem buffer closeKind separatorKind c p =
     (case parseListItems IsExpected IsEnd parseItem buffer separatorKind c p of
        None \<Rightarrow> None
      | Some (buffer', skippedTokens, p1) \<Rightarrow>
          (case expect closeKind p1 of (token, p2) \<Rightarrow>
             Some (buffer', fst (prependTrivia_Token token skippedTokens), p2)))"

text \<open>
  \<open>parseSeparatedList(openKind, closeKind, separatorKind, openToken, list, closeToken,
  code, parseItem)\<close>; the result is the open token, the list, the close token and the
  parser afterwards.
\<close>

definition parseSeparatedList ::
  "(TokenKind \<Rightarrow> bool) \<Rightarrow> (TokenKind \<Rightarrow> bool) \<Rightarrow> ParserFunc
     \<Rightarrow> TokenKind \<Rightarrow> TokenKind \<Rightarrow> TokenKind \<Rightarrow> DiagCode \<Rightarrow> ParserBase
     \<Rightarrow> (Token \<times> TokenOrSyntax list \<times> Token \<times> ParserBase) option" where
  "parseSeparatedList IsExpected IsEnd parseItem openKind closeKind separatorKind c p =
     (case expect openKind p of (openToken, p1) \<Rightarrow>
        (case parseSeparatedListInto IsExpected IsEnd parseItem [] closeKind separatorKind c p1 of
           None \<Rightarrow> None
         | Some (list, closeToken, p2) \<Rightarrow> Some (openToken, list, closeToken, p2)))"

section \<open>Notions used to state the properties\<close>

text \<open>
  A token that \<open>skipBadTokens\<close> passes over: not a legal restart token, not the end of
  the file and not an abort token.
\<close>

definition isBadToken :: "(TokenKind \<Rightarrow> bool) \<Rightarrow> (TokenKind \<Rightarrow> bool) \<Rightarrow> Token \<Rightarrow> bool" where
  "isBadToken IsExpected IsAbort t \<longleftrightarrow>
     \<not> IsExpected (kind t) \<and> kind t \<noteq> EndOfFile \<and> \<not> IsAbort (kind t)"

text \<open>
  The source text a token stands for: its leading trivia, in order, followed by its own
  text; a \<open>SkippedTokens\<close> trivium stands for the text of the tokens it carries.
\<close>

fun renderToken :: "Token \<Rightarrow> string"
and renderTrivia :: "Trivia \<Rightarrow> string" where
  "renderToken (Token k loc txt trv m) = concat (map renderTrivia trv) @ txt"
| "renderTrivia (Trivia k txt toks) =
     (if k = SkippedTokens then concat (map renderToken toks) else txt)"

text \<open>
  The walk over a syntax tree that visits every token from left to right and concatenates
  what \<open>F\<close> yields for each of them.
\<close>

fun flattenNode :: "(Token \<Rightarrow> 'a list) \<Rightarrow> SyntaxNode \<Rightarrow> 'a list"
and flattenList :: "(Token \<Rightarrow> 'a list) \<Rightarrow> TokenOrSyntax list \<Rightarrow> 'a list" where
  "flattenNode F (SyntaxNode k cs) = flattenList F cs"
| "flattenList F [] = []"
| "flattenList F (TOS_Token t # cs) = F t @ flattenList F cs"
| "flattenList F (TOS_Node n # cs) = flattenNode F n @ flattenList F cs"

definition isSkipped :: "Trivia \<Rightarrow> bool" where
  "isSkipped tr \<longleftrightarrow> triviaKind tr = SkippedTokens"

text \<open>
  A token as the token source yields it: not synthesised, and with no \<open>SkippedTokens\<close>
  trivium, which only the parser's recovery creates.
\<close>

definition isLexed :: "Token \<Rightarrow> bool" where
  "isLexed t \<longleftrightarrow> \<not> isMissing t \<and> list_all (\<lambda>tr. \<not> isSkipped tr) (trivia t)"

text \<open>
  The text of a tree token when missing tokens are passed over: a missing token has no
  text of its own and the trivia it took from the actual token are still on that token,
  so it contributes only the skipped tokens attached to it.
\<close>

definition treeText :: "Token \<Rightarrow> string" where
  "treeText t =
     (if isMissing t then concat (map renderTrivia (filter isSkipped (trivia t)))
      else renderToken t)"

text \<open>
  The input tokens a tree token accounts for: the skipped tokens attached in front of it,
  then the token itself as it was before any skipped run was attached, unless it is a
  missing token.
\<close>

definition sourceTokens :: "Token \<Rightarrow> Token list" where
  "sourceTokens t =
     concat (map triviaTokens (filter isSkipped (trivia t))) @
     (if isMissing t then []
      else [withTrivia t (filter (\<lambda>tr. \<not> isSkipped tr) (trivia t))])"

text \<open>
  What the list parser relies on in \<open>parseItem\<close>, for a walk \<open>F\<close> of the tree and a view
  \<open>G\<close> of the input tokens: on input as the token source yields it, the item has a first
  token, the parser consumes a prefix of the window, and the walk of the item yields what
  the consumed tokens show.
\<close>

definition itemPreserves :: "(Token \<Rightarrow> 'a list) \<Rightarrow> (Token \<Rightarrow> 'a list) \<Rightarrow> ParserFunc \<Rightarrow> bool" where
  "itemPreserves F G parseItem \<longleftrightarrow>
     (\<forall>b p. list_all isLexed (window p) \<longrightarrow>
        getFirstToken (fst (parseItem b p)) \<noteq> None \<and>
        (\<exists>consumed. window p = consumed @ window (snd (parseItem b p)) \<and>
                     flattenNode F (fst (parseItem b p)) = concat (map G consumed)))"

text \<open>
  Progress of \<open>parseItem\<close>: where an item can begin at a token that is neither an end of the
  list nor a separator, parsing the item consumes at least one token; and the end of the
  file does not begin an item unless it also ends the list.
\<close>

definition itemProgresses ::
  "(TokenKind \<Rightarrow> bool) \<Rightarrow> (TokenKind \<Rightarrow> bool) \<Rightarrow> TokenKind \<Rightarrow> ParserFunc \<Rightarrow> bool" where
  "itemProgresses IsExpected IsEnd separatorKind parseItem \<longleftrightarrow>
     (IsExpected EndOfFile \<longrightarrow> IsEnd EndOfFile) \<and>
     (\<forall>b p. IsExpected (kind (peek p)) \<and> \<not> IsEnd (kind (peek p)) \<and>
            kind (peek p) \<noteq> separatorKind \<longrightarrow>
            length (window (snd (parseItem b p))) < length (window p))"

text \<open>
  The shape of the \<open>skippedTokens\<close> accumulator of the list parser: empty, or one
  \<open>SkippedTokens\<close> trivium holding a non-empty run of tokens taken from the input.
\<close>

definition pendingSkipped :: "Trivia \<Rightarrow> bool" where
  "pendingSkipped sk \<longleftrightarrow>
     sk = emptyTrivia \<or>
     (sk = skippedTrivia (triviaTokens sk) \<and> triviaTokens sk \<noteq> [] \<and>
      list_all isLexed (triviaTokens sk))"

text \<open>
  What makes a walk \<open>F\<close> of the tree agree with a view \<open>G\<close> of the input: a skipped run
  attached in front of a token shows up in front of what the token yields, a missing token
  without skipped runs yields nothing, and an input token yields its own view.
\<close>

definition attaches :: "(Token \<Rightarrow> 'a list) \<Rightarrow> (Token \<Rightarrow> 'a list) \<Rightarrow> bool" where
  "attaches F G \<longleftrightarrow>
     (\<forall>t toks. F (withTrivia t (skippedTrivia toks # trivia t)) = concat (map G toks) @ F t) \<and>
     (\<forall>k loc trv. list_all (\<lambda>tr. \<not> isSkipped tr) trv \<longrightarrow> F (Token k loc [] trv True) = []) \<and>
     (\<forall>t. isLexed t \<longrightarrow> F t = G t)"






subsection \<open>A list of identifiers in parentheses\<close>

text \<open>A parser at the start of a token sequence.\<close>

definition parserOn :: "Token list \<Rightarrow> SourceLocation \<Rightarrow> ParserBase" where
  "parserOn ts end = \<lparr>window = ts, sourceEnd = end, lastConsumed = None, diagnostics = []\<rparr>"

definition isIdentifierOrComma :: "TokenKind \<Rightarrow> bool" where
  "isIdentifierOrComma k \<longleftrightarrow> k = Identifier \<or> k = Comma"

definition isCloseParenthesis :: "TokenKind \<Rightarrow> bool" where
  "isCloseParenthesis k \<longleftrightarrow> k = CloseParenthesis"

definition isEndOfParenList :: "TokenKind \<Rightarrow> bool" where
  "isEndOfParenList k \<longleftrightarrow> k = CloseParenthesis \<or> k = Semicolon"

text \<open>The item parser of such a list: one identifier, through \<open>expect\<close>.\<close>

definition parseIdentifier :: ParserFunc where
  "parseIdentifier isFirst p =
     (case expect Identifier p of (t, p') \<Rightarrow> (SyntaxNode 0 [TOS_Token t], p'))"

text \<open>The identifier list between parentheses, reporting skipped tokens under code 1.\<close>

definition parseIdentifierList ::
  "ParserBase \<Rightarrow> (Token \<times> TokenOrSyntax list \<times> Token \<times> ParserBase) option" where
  "parseIdentifierList p =
     parseSeparatedList isIdentifierOrComma isEndOfParenList parseIdentifier
       OpenParenthesis CloseParenthesis Comma (DiagCode 1) p"

text \<open>The tokens of the examples; a blank precedes \<open>%\<close>, \<open>b\<close> and \<open>;\<close>.\<close>

definition whitespace :: Trivia where
  "whitespace = Trivia Whitespace '' '' []"

definition tokOpen :: Token where "tokOpen = Token OpenParenthesis 0 ''('' [] False"
definition tokA :: Token where "tokA = Token Identifier 1 ''a'' [] False"
definition tokComma :: Token where "tokComma = Token Comma 2 '','' [] False"
definition tokPercent :: Token where "tokPercent = Token Percent 4 ''%'' [whitespace] False"
definition tokComma2 :: Token where "tokComma2 = Token Comma 5 '','' [] False"
definition tokB :: Token where "tokB = Token Identifier 7 ''b'' [whitespace] False"
definition tokClose :: Token where "tokClose = Token CloseParenthesis 8 '')'' [] False"
definition tokSemicolon :: Token where "tokSemicolon = Token Semicolon 2 '';'' [whitespace] False"
definition tokEOF :: Token where "tokEOF = Token EndOfFile 9 [] [] False"

text \<open>\<open>(a, %, b)\<close>: a bad token in the middle of the list.\<close>

definition listSource :: "Token list" where
  "listSource = [tokOpen, tokA, tokComma, tokPercent, tokComma2, tokB, tokClose, tokEOF]"

text \<open>\<open>( ;\<close>: the list is ended by a token that is not the close token.\<close>

definition brokenSource :: "Token list" where
  "brokenSource = [tokOpen, tokSemicolon, tokEOF]"

text \<open>\<open>()\<close>: the empty list.\<close>

definition emptyListSource :: "Token list" where
  "emptyListSource = [tokOpen, Token CloseParenthesis 1 '')'' [] False, tokEOF]"

text \<open>\<open>a %)\<close>, after the open token: a bad token in front of the close token.\<close>

definition residualSource :: "Token list" where
  "residualSource = [tokA, tokPercent, tokClose, tokEOF]"

section \<open>Hierarchy symbols\<close>

text \<open>
  Modelled from the spec: \<open>Symbol.h\<close>, \<open>StatementBodiedScope.h\<close>, \<open>ConstantValue.h\<close> and
  the syntax node classes are not part of the sources at hand, and the header of the
  hierarchy symbols only declares the \<open>fromSyntax\<close> functions. The symbol kinds are those
  the header names, with the kind of the implicit parameter of a loop-generate block. A
  symbol carries its kind, name and location; a symbol that is a scope carries its members
  in order, a statement-bodied scope its statement tree, a parameter its value.
\<close>

datatype SymbolKind =
    CompilationUnit
  | Package
  | ModuleInstance
  | InterfaceInstance
  | ProgramInstance
  | SequentialBlock
  | ProceduralBlock
  | GenerateBlock
  | GenerateBlockArray
  | Root
  | Parameter

datatype ConstantValue = BadValue | IntegerValue int

datatype Symbol =
  Symbol (symbolKind: SymbolKind) (name: string) (symbolLocation: SourceLocation)
         (members: "Symbol list") (body: "SyntaxNode option") (parameterValue: "ConstantValue option")

text \<open>The constructors of the header: each fixes the kind and starts with an empty scope.\<close>

definition SequentialBlockSymbol :: "SourceLocation \<Rightarrow> Symbol" where
  "SequentialBlockSymbol loc = Symbol SequentialBlock [] loc [] None None"

definition GenerateBlockSymbol :: "string \<Rightarrow> SourceLocation \<Rightarrow> Symbol" where
  "GenerateBlockSymbol n loc = Symbol GenerateBlock n loc [] None None"

definition GenerateBlockArraySymbol :: "string \<Rightarrow> SourceLocation \<Rightarrow> Symbol" where
  "GenerateBlockArraySymbol n loc = Symbol GenerateBlockArray n loc [] None None"

text \<open>
  Modelled from the spec: \<open>Scope::addMember\<close> appends to the member list; a symbol's name
  can be set after construction, and \<open>setBody\<close> stores the statement tree of a
  statement-bodied scope.
\<close>

definition addMember :: "Symbol \<Rightarrow> Symbol \<Rightarrow> Symbol" where
  "addMember m s =
     Symbol (symbolKind s) (name s) (symbolLocation s) (members s @ [m]) (body s) (parameterValue s)"

definition addMembers :: "Symbol list \<Rightarrow> Symbol \<Rightarrow> Symbol" where
  "addMembers ms s = foldl (\<lambda>s m. addMember m s) s ms"

definition setName :: "string \<Rightarrow> Symbol \<Rightarrow> Symbol" where
  "setName n s =
     Symbol (symbolKind s) n (symbolLocation s) (members s) (body s) (parameterValue s)"

definition setBody :: "SyntaxNode \<Rightarrow> Symbol \<Rightarrow> Symbol" where
  "setBody b s =
     Symbol (symbolKind s) (name s) (symbolLocation s) (members s) (Some b) (parameterValue s)"

subsection \<open>Sequential blocks\<close>

record BlockStatementSyntax =
  blockLabel :: "string option"
  beginLocation :: SourceLocation
  items :: SyntaxNode

text \<open>
  Modelled from the spec: \<open>SequentialBlockSymbol::fromSyntax\<close> takes the name from the
  optional label and stores the statement tree on the embedded statement-bodied scope.
\<close>

definition SequentialBlockSymbol_fromSyntax :: "BlockStatementSyntax \<Rightarrow> Symbol" where
  "SequentialBlockSymbol_fromSyntax syn =
     setBody (items syn)
       (setName (case blockLabel syn of None \<Rightarrow> [] | Some l \<Rightarrow> l)
          (SequentialBlockSymbol (beginLocation syn)))"

subsection \<open>Generate blocks\<close>

text \<open>
  Modelled from the spec: expressions are bound and evaluated by an external binder,
  consumed as an opaque service: \<open>bind env e\<close> is the constant value of \<open>e\<close> where the names
  of \<open>env\<close> are visible with their values (what the lookup location and the parent scope
  determine), \<open>BadValue\<close> if the evaluation fails. The members of a block are likewise
  elaborated by a service, \<open>elaborate\<close>.
\<close>

datatype ExpressionSyntax =
    Literal int
  | NameRef string
  | Less ExpressionSyntax ExpressionSyntax
  | Add ExpressionSyntax ExpressionSyntax

type_synonym Binder = "(string \<times> int) list \<Rightarrow> ExpressionSyntax \<Rightarrow> ConstantValue"

type_synonym Elaborator = "SyntaxNode list \<Rightarrow> Symbol list"

record GenerateBlockSyntax =
  blockName :: "string option"
  blockLocation :: SourceLocation
  blockMembers :: "SyntaxNode list"

record IfGenerateSyntax =
  condition :: ExpressionSyntax
  thenBlock :: GenerateBlockSyntax
  elseClause :: "GenerateBlockSyntax option"

record LoopGenerateSyntax =
  genvar :: string
  initialExpr :: ExpressionSyntax
  stopExpr :: ExpressionSyntax
  iterationExpr :: ExpressionSyntax
  loopBlock :: GenerateBlockSyntax

text \<open>A generate block for a block of source: named after its label, or anonymous.\<close>

definition generateBlock :: "Elaborator \<Rightarrow> GenerateBlockSyntax \<Rightarrow> Symbol" where
  "generateBlock elaborate b =
     addMembers (elaborate (blockMembers b))
       (GenerateBlockSymbol (case blockName b of None \<Rightarrow> [] | Some l \<Rightarrow> l) (blockLocation b))"

text \<open>
  Modelled from the spec: \<open>GenerateBlockSymbol::fromSyntax\<close> for an if-generate evaluates
  the guard as a constant and returns the then-branch block when it is true, the
  else-branch block when it is false and there is one, otherwise null. The header says of
  it: ``this can return null if the condition is false and there is no else block''.
\<close>

definition GenerateBlockSymbol_fromSyntax ::
  "Binder \<Rightarrow> Elaborator \<Rightarrow> (string \<times> int) list \<Rightarrow> IfGenerateSyntax \<Rightarrow> Symbol option" where
  "GenerateBlockSymbol_fromSyntax bind elaborate env syn =
     (case bind env (condition syn) of
        BadValue \<Rightarrow> None
      | IntegerValue v \<Rightarrow>
          if v \<noteq> 0 then Some (generateBlock elaborate (thenBlock syn))
          else (case elseClause syn of
                  Some b \<Rightarrow> Some (generateBlock elaborate b)
                | None \<Rightarrow> None))"

text \<open>The parent scope's part: a null result adds no member.\<close>

definition addIfGenerate ::
  "Binder \<Rightarrow> Elaborator \<Rightarrow> (string \<times> int) list \<Rightarrow> IfGenerateSyntax \<Rightarrow> Symbol \<Rightarrow> Symbol" where
  "addIfGenerate bind elaborate env syn parent =
     (case GenerateBlockSymbol_fromSyntax bind elaborate env syn of
        None \<Rightarrow> parent
      | Some block \<Rightarrow> addMember block parent)"

subsection \<open>Generate block arrays\<close>

datatype ElaborationError = ConstantEvaluationFailure | IterationCapExceeded

text \<open>The implicit parameter of an iteration: named after the genvar, bound to its value.\<close>

definition implicitParameter :: "string \<Rightarrow> SourceLocation \<Rightarrow> int \<Rightarrow> Symbol" where
  "implicitParameter n loc v = Symbol Parameter n loc [] None (Some (IntegerValue v))"

text \<open>The block of one iteration: the implicit parameter, then the members of the body.\<close>

definition iterationBlock :: "Elaborator \<Rightarrow> LoopGenerateSyntax \<Rightarrow> int \<Rightarrow> Symbol" where
  "iterationBlock elaborate syn v =
     addMembers
       (implicitParameter (genvar syn) (blockLocation (loopBlock syn)) v #
        elaborate (blockMembers (loopBlock syn)))
       (GenerateBlockSymbol [] (blockLocation (loopBlock syn)))"

text \<open>
  Modelled from the spec: the iteration cap is ``an implementation-defined maximum (must
  be \<open>\<ge> 2^16\<close>)''; no constant for it is in the sources. The model takes the least cap
  the specification allows.
\<close>

definition maxGenerateIterations :: nat where
  "maxGenerateIterations = 2 ^ 16"

text \<open>
  Modelled from the spec: the loop of \<open>GenerateBlockArraySymbol::fromSyntax\<close>. While the
  condition is true for the current value of the genvar, one block is created and the step
  expression gives the next value; going beyond the cap is a fatal error of this array,
  and a failed evaluation aborts the array. The loop is written as the \<open>while\<close> it is:
  that it returns is a theorem, not a property of the notation, so not returning is the
  value \<open>None\<close>.
\<close>

partial_function (option) generateLoop ::
  "Binder \<Rightarrow> Elaborator \<Rightarrow> (string \<times> int) list \<Rightarrow> LoopGenerateSyntax \<Rightarrow> nat \<Rightarrow> int
     \<Rightarrow> Symbol list \<Rightarrow> (ElaborationError + Symbol list) option" where
  "generateLoop bind elaborate env syn count v blocks =
     (case bind ((genvar syn, v) # env) (stopExpr syn) of
        BadValue \<Rightarrow> Some (Inl ConstantEvaluationFailure)
      | IntegerValue c \<Rightarrow>
          if c = 0 then Some (Inr blocks)
          else if maxGenerateIterations \<le> count then Some (Inl IterationCapExceeded)
          else (case bind ((genvar syn, v) # env) (iterationExpr syn) of
                  BadValue \<Rightarrow> Some (Inl ConstantEvaluationFailure)
                | IntegerValue v' \<Rightarrow>
                    generateLoop bind elaborate env syn (Suc count) v'
                      (blocks @ [iterationBlock elaborate syn v])))"

declare generateLoop.simps [code]

text \<open>
  Modelled from the spec: \<open>GenerateBlockArraySymbol::fromSyntax\<close>, only declared in the
  header. The header declares its result as a reference to the array symbol, so an array
  is returned on every path, and the errors go to the diagnostics of the compilation, here
  the second component of the result. A fatal error aborts the subtree: the specification
  has the failing subtree replaced by a placeholder symbol, here the array without blocks.
  The parent scope is a constant argument in the header; the model reads it through \<open>env\<close>
  and cannot change it. \<open>None\<close> stands for not returning, as in the loop.
\<close>

definition GenerateBlockArraySymbol_fromSyntax ::
  "Binder \<Rightarrow> Elaborator \<Rightarrow> (string \<times> int) list \<Rightarrow> LoopGenerateSyntax
     \<Rightarrow> (Symbol \<times> ElaborationError list) option" where
  "GenerateBlockArraySymbol_fromSyntax bind elaborate env syn =
     (let array = GenerateBlockArraySymbol
                    (case blockName (loopBlock syn) of None \<Rightarrow> [] | Some l \<Rightarrow> l)
                    (blockLocation (loopBlock syn))
      in case bind env (initialExpr syn) of
           BadValue \<Rightarrow> Some (array, [ConstantEvaluationFailure])
         | IntegerValue v0 \<Rightarrow>
             (case generateLoop bind elaborate env syn 0 v0 [] of
                None \<Rightarrow> None
              | Some (Inl e) \<Rightarrow> Some (array, [e])
              | Some (Inr blocks) \<Rightarrow> Some (addMembers blocks array, [])))"

text \<open>
  The value of the genvar at the start of iteration \<open>n\<close>, and the value of the condition
  there; \<open>None\<close> where an evaluation on the way fails.
\<close>

fun genvarAt :: "Binder \<Rightarrow> (string \<times> int) list \<Rightarrow> LoopGenerateSyntax \<Rightarrow> nat \<Rightarrow> int option" where
  "genvarAt bind env syn 0 =
     (case bind env (initialExpr syn) of BadValue \<Rightarrow> None | IntegerValue v \<Rightarrow> Some v)"
| "genvarAt bind env syn (Suc n) =
     (case genvarAt bind env syn n of
        None \<Rightarrow> None
      | Some v \<Rightarrow>
          (case bind ((genvar syn, v) # env) (iterationExpr syn) of
             BadValue \<Rightarrow> None
           | IntegerValue v' \<Rightarrow> Some v'))"

definition conditionAt ::
  "Binder \<Rightarrow> (string \<times> int) list \<Rightarrow> LoopGenerateSyntax \<Rightarrow> nat \<Rightarrow> bool option" where
  "conditionAt bind env syn n =
     (case genvarAt bind env syn n of
        None \<Rightarrow> None
      | Some v \<Rightarrow>
          (case bind ((genvar syn, v) # env) (stopExpr syn) of
             BadValue \<Rightarrow> None
           | IntegerValue c \<Rightarrow> Some (c \<noteq> 0)))"

subsection \<open>An evaluator of constant expressions\<close>

fun lookupName :: "(string \<times> int) list \<Rightarrow> string \<Rightarrow> ConstantValue" where
  "lookupName [] n = BadValue"
| "lookupName ((m, v) # env) n = (if m = n then IntegerValue v else lookupName env n)"

fun evalConstant :: Binder where
  "evalConstant env (Literal v) = IntegerValue v"
| "evalConstant env (NameRef n) = lookupName env n"
| "evalConstant env (Less a b) =
     (case (evalConstant env a, evalConstant env b) of
        (IntegerValue x, IntegerValue y) \<Rightarrow> IntegerValue (if x < y then 1 else 0)
      | _ \<Rightarrow> BadValue)"
| "evalConstant env (Add a b) =
     (case (evalConstant env a, evalConstant env b) of
        (IntegerValue x, IntegerValue y) \<Rightarrow> IntegerValue (x + y)
      | _ \<Rightarrow> BadValue)"

text \<open>\<open>for (genvar i = 0; i < 3; i++) begin : g ... end\<close>\<close>

definition loopThrice :: LoopGenerateSyntax where
  "loopThrice =
     \<lparr>genvar = ''i'', initialExpr = Literal 0,
      stopExpr = Less (NameRef ''i'') (Literal 3),
      iterationExpr = Add (NameRef ''i'') (Literal 1),
      loopBlock = \<lparr>blockName = Some ''g'', blockLocation = 5, blockMembers = []\<rparr>\<rparr>"

text \<open>\<open>for (genvar i = 0; 1; i++) begin ... end\<close>\<close>

definition loopForever :: LoopGenerateSyntax where
  "loopForever =
     \<lparr>genvar = ''i'', initialExpr = Literal 0,
      stopExpr = Literal 1,
      iterationExpr = Add (NameRef ''i'') (Literal 1),
      loopBlock = \<lparr>blockName = None, blockLocation = 5, blockMembers = []\<rparr>\<rparr>"

text \<open>\<open>if (0) begin ... end\<close>, without an else clause.\<close>

definition ifZero :: IfGenerateSyntax where
  "ifZero =
     \<lparr>condition = Literal 0,
      thenBlock = \<lparr>blockName = None, blockLocation = 3, blockMembers = []\<rparr>,
      elseClause = None\<rparr>"

section \<open>Properties of skipBadTokens\<close>

declare skipBadTokensLoop.simps [simp del]

lemma skipBadTokensLoop_closed:
  "window p = ws \<Longrightarrow>
   skipBadTokensLoop E A c err toks p =
     (if E (kind (currentOf (dropWhile (isBadToken E A) ws) (sourceEnd p))) then Continue else Abort,
      toks @ takeWhile (isBadToken E A) ws,
      p\<lparr>window := dropWhile (isBadToken E A) ws,
        lastConsumed := (if takeWhile (isBadToken E A) ws = [] then lastConsumed p
                         else Some (last (takeWhile (isBadToken E A) ws))),
        diagnostics := diagnostics p @
          (if \<not> err \<and> \<not> E (kind (peek p)) then [Diagnostic c (location (peek p)) []] else [])\<rparr>)"
proof (induction ws arbitrary: p err toks)
  case Nil
  then show ?case
    by (subst skipBadTokensLoop.simps) (simp add: isBadToken_def addError_def peek_def)
next
  case (Cons t ts)
  show ?case
  proof (cases "isBadToken E A t")
    case True
    then have k: "\<not> E (kind t)" "kind t \<noteq> EndOfFile" "\<not> A (kind t)"
      by (simp_all add: isBadToken_def)
    show ?thesis using Cons.prems True k
      by (subst skipBadTokensLoop.simps) (simp add: Cons.IH consume_def addError_def peek_def)
  next
    case False
    then have k: "E (kind t) \<or> kind t = EndOfFile \<or> A (kind t)"
      by (simp add: isBadToken_def)
    show ?thesis using Cons.prems False k
      by (subst skipBadTokensLoop.simps) (auto simp add: addError_def peek_def)
  qed
qed

lemma skipBadTokens_closed:
  "skipBadTokens E A c p =
     (if E (kind (currentOf (dropWhile (isBadToken E A) (window p)) (sourceEnd p)))
      then Continue else Abort,
      if takeWhile (isBadToken E A) (window p) = [] then emptyTrivia
      else skippedTrivia (takeWhile (isBadToken E A) (window p)),
      p\<lparr>window := dropWhile (isBadToken E A) (window p),
        lastConsumed := (if takeWhile (isBadToken E A) (window p) = [] then lastConsumed p
                         else Some (last (takeWhile (isBadToken E A) (window p)))),
        diagnostics := diagnostics p @
          (if \<not> E (kind (peek p)) then [Diagnostic c (location (peek p)) []] else [])\<rparr>)"
  by (simp add: skipBadTokens_def skipBadTokensLoop_closed [OF refl])

lemma currentOf_dropWhile_not_bad:
  "\<not> isBadToken E A (currentOf (dropWhile (isBadToken E A) ws) e)"
proof (induction ws)
  case Nil
  show ?case by (simp add: isBadToken_def)
next
  case (Cons t ts)
  then show ?case by (cases "isBadToken E A t") simp_all
qed

lemma dropWhile_bad_expected:
  "E (kind (currentOf ws e)) \<Longrightarrow> dropWhile (isBadToken E A) ws = ws"
  by (cases ws) (simp_all add: isBadToken_def)

lemma takeWhile_bad_expected:
  "E (kind (currentOf ws e)) \<Longrightarrow> takeWhile (isBadToken E A) ws = []"
  by (cases ws) (simp_all add: isBadToken_def)


section \<open>Properties of trivia propagation\<close>

lemma emptyTrivia_simps [simp]:
  "triviaKind emptyTrivia = Unknown"
  "triviaTokens emptyTrivia = []"
  "triviaKind (skippedTrivia toks) = SkippedTokens"
  "triviaTokens (skippedTrivia toks) = toks"
  "skippedTrivia toks \<noteq> emptyTrivia"
  by (simp_all add: emptyTrivia_def skippedTrivia_def)

lemma pendingSkipped_kind:
  "pendingSkipped sk \<Longrightarrow> triviaKind sk \<noteq> Unknown \<longleftrightarrow> sk \<noteq> emptyTrivia"
  unfolding pendingSkipped_def
  by (metis emptyTrivia_simps(1,3) TriviaKind.distinct(9))

lemma prependTrivia_Token_attaches:
  assumes "attaches F G" and "pendingSkipped sk"
  shows "snd (prependTrivia_Token t sk) = emptyTrivia"
    and "F (fst (prependTrivia_Token t sk)) = concat (map G (triviaTokens sk)) @ F t"
proof -
  show "snd (prependTrivia_Token t sk) = emptyTrivia"
    using assms(2) pendingSkipped_kind [OF assms(2)]
    by (auto simp add: prependTrivia_Token_def)
  show "F (fst (prependTrivia_Token t sk)) = concat (map G (triviaTokens sk)) @ F t"
  proof (cases "sk = emptyTrivia")
    case True
    then show ?thesis by (simp add: prependTrivia_Token_def)
  next
    case False
    then have sk: "sk = skippedTrivia (triviaTokens sk)"
      using assms(2) by (simp add: pendingSkipped_def)
    have "F (withTrivia t (skippedTrivia (triviaTokens sk) # trivia t)) =
            concat (map G (triviaTokens sk)) @ F t"
      using assms(1) by (simp add: attaches_def)
    then have "F (withTrivia t (sk # trivia t)) = concat (map G (triviaTokens sk)) @ F t"
      using sk by simp
    moreover have "triviaKind sk \<noteq> Unknown"
      using False pendingSkipped_kind [OF assms(2)] by simp
    ultimately show ?thesis by (simp add: prependTrivia_Token_def)
  qed
qed

lemma prependToFirstToken_None:
  "(prependToFirstToken tr n = None) = (getFirstToken n = None)"
  "(prependToFirstTokenOfList tr cs = None) = (getFirstTokenOfList cs = None)"
  by (induction tr n and tr cs rule: prependToFirstToken_prependToFirstTokenOfList.induct)
     (auto split: option.splits)

lemma flatten_no_token:
  "getFirstToken n = None \<Longrightarrow> flattenNode F n = []"
  "getFirstTokenOfList cs = None \<Longrightarrow> flattenList F cs = []"
  by (induction n and cs rule: getFirstToken_getFirstTokenOfList.induct)
     (auto split: option.splits)

lemma prependToFirstToken_flatten:
  assumes "attaches F G"
  shows "prependToFirstToken (skippedTrivia toks) n = Some n' \<Longrightarrow>
           flattenNode F n' = concat (map G toks) @ flattenNode F n"
    and "prependToFirstTokenOfList (skippedTrivia toks) cs = Some cs' \<Longrightarrow>
           flattenList F cs' = concat (map G toks) @ flattenList F cs"
proof (induction "skippedTrivia toks" n and "skippedTrivia toks" cs arbitrary: n' and cs'
       rule: prependToFirstToken_prependToFirstTokenOfList.induct)
  case (1 k cs)
  then show ?case by (auto split: option.splits)
next
  case 2
  then show ?case by simp
next
  case (3 t cs)
  then show ?case using assms by (auto simp add: attaches_def)
next
  case (4 n cs)
  show ?case
  proof (cases "prependToFirstToken (skippedTrivia toks) n")
    case None
    then have "flattenNode F n = []"
      by (simp add: prependToFirstToken_None flatten_no_token)
    then show ?thesis using 4 None by (auto split: option.splits)
  next
    case (Some m)
    then show ?thesis using 4 by auto
  qed
qed

lemma prependTrivia_Node_attaches:
  assumes "attaches F G" and "pendingSkipped sk" and "getFirstToken n \<noteq> None"
  shows "snd (prependTrivia_Node n sk) = emptyTrivia"
    and "flattenNode F (fst (prependTrivia_Node n sk)) =
           concat (map G (triviaTokens sk)) @ flattenNode F n"
proof -
  obtain n' where n': "prependToFirstToken sk n = Some n'"
    using assms(3) prependToFirstToken_None(1) [of sk n] by (cases "prependToFirstToken sk n") auto
  show "snd (prependTrivia_Node n sk) = emptyTrivia"
    using assms(2) pendingSkipped_kind [OF assms(2)] n'
    by (auto simp add: prependTrivia_Node_def)
  show "flattenNode F (fst (prependTrivia_Node n sk)) =
           concat (map G (triviaTokens sk)) @ flattenNode F n"
  proof (cases "sk = emptyTrivia")
    case True
    then show ?thesis by (simp add: prependTrivia_Node_def)
  next
    case False
    then have sk: "sk = skippedTrivia (triviaTokens sk)"
      using assms(2) by (simp add: pendingSkipped_def)
    have "prependToFirstToken (skippedTrivia (triviaTokens sk)) n = Some n'"
      using n' sk by simp
    then have "flattenNode F n' = concat (map G (triviaTokens sk)) @ flattenNode F n"
      by (rule prependToFirstToken_flatten(1) [OF assms(1)])
    moreover have "triviaKind sk \<noteq> Unknown"
      using False pendingSkipped_kind [OF assms(2)] by simp
    ultimately show ?thesis using n' by (simp add: prependTrivia_Node_def)
  qed
qed

section \<open>Properties of expect\<close>

lemma peek_lexed_trivia:
  "list_all isLexed (window p) \<Longrightarrow> list_all (\<lambda>tr. \<not> isSkipped tr) (trivia (peek p))"
  by (cases "window p") (simp_all add: peek_def isLexed_def)

lemma expect_mismatch:
  "kind (peek p) \<noteq> k \<Longrightarrow>
     expect k p = (Token k (location (peek p)) [] (trivia (peek p)) True,
                   p\<lparr>diagnostics := diagnostics p @
                        [Diagnostic ExpectedToken (location (peek p)) [k]]\<rparr>)"
  by (simp add: expect_def createExpectedToken_def Let_def)

lemma expect_match:
  "kind (peek p) = k \<Longrightarrow>
     expect k p = (peek p, p\<lparr>window := tl (window p), lastConsumed := Some (peek p)\<rparr>)"
  by (cases "window p") (simp_all add: expect_def consume_def Let_def)

lemma expect_attaches:
  assumes "attaches F G" and "list_all isLexed (window p)"
    and "k = EndOfFile \<Longrightarrow> F (Token EndOfFile (sourceEnd p) [] [] False) = []"
  shows "\<exists>consumed. window p = consumed @ window (snd (expect k p)) \<and>
                     F (fst (expect k p)) = concat (map G consumed)"
proof (cases "kind (peek p) = k")
  case False
  have "F (Token k (location (peek p)) [] (trivia (peek p)) True) = []"
    using assms(1) peek_lexed_trivia [OF assms(2)] by (simp add: attaches_def)
  then show ?thesis using False by (simp add: expect_mismatch)
next
  case True
  show ?thesis
  proof (cases "window p")
    case Nil
    then have "peek p = Token EndOfFile (sourceEnd p) [] [] False"
      by (simp add: peek_def)
    then show ?thesis using True Nil assms(3) by (simp add: expect_match)
  next
    case (Cons t ts)
    then have "F t = G t" using assms(1,2) by (simp add: attaches_def)
    then have "window p = [t] @ window (snd (expect k p)) \<and>
               F (fst (expect k p)) = concat (map G [t])"
      using True Cons by (simp add: expect_match peek_def)
    then show ?thesis by blast
  qed
qed

section \<open>Properties of the list loops\<close>

lemma lexed_suffix:
  "list_all isLexed ws \<Longrightarrow> ws = consumed @ rest \<Longrightarrow> list_all isLexed rest"
  by simp

lemma skip_continue_shorter:
  assumes "\<not> E (kind (currentOf ws e))"
    and "E (kind (currentOf (dropWhile (isBadToken E A) ws) e))"
  shows "length (dropWhile (isBadToken E A) ws) < length ws"
proof (cases ws)
  case Nil
  then show ?thesis using assms by simp
next
  case (Cons t ts)
  have "isBadToken E A t"
  proof (rule ccontr)
    assume "\<not> isBadToken E A t"
    then have "dropWhile (isBadToken E A) ws = ws" using Cons by simp
    then show False using assms by simp
  qed
  then have "length (dropWhile (isBadToken E A) ws) \<le> length ts"
    using Cons by (simp add: length_dropWhile_le)
  then show ?thesis using Cons by simp
qed

lemma concat_map_takeWhile_dropWhile:
  "concat (map G (takeWhile P ws)) @ concat (map G (dropWhile P ws)) = concat (map G ws)"
proof -
  have "concat (map G (takeWhile P ws @ dropWhile P ws)) = concat (map G ws)" by simp
  then show ?thesis by (simp only: map_append concat_append)
qed

lemma skipBadTokens_attaches:
  assumes "list_all isLexed (window p)"
  shows "pendingSkipped (fst (snd (skipBadTokens E A c p)))"
    and "concat (map G (triviaTokens (fst (snd (skipBadTokens E A c p))))) @
         concat (map G (window (snd (snd (skipBadTokens E A c p))))) = concat (map G (window p))"
    and "window p = takeWhile (isBadToken E A) (window p) @ window (snd (snd (skipBadTokens E A c p)))"
proof -
  have "list_all isLexed (takeWhile (isBadToken E A) (window p))"
    using assms by (metis lexed_suffix takeWhile_dropWhile_id list_all_append)
  then show "pendingSkipped (fst (snd (skipBadTokens E A c p)))"
    by (simp add: skipBadTokens_closed pendingSkipped_def)
  show "concat (map G (triviaTokens (fst (snd (skipBadTokens E A c p))))) @
         concat (map G (window (snd (snd (skipBadTokens E A c p))))) = concat (map G (window p))"
    using concat_map_takeWhile_dropWhile [of G "isBadToken E A" "window p"]
    by (cases "takeWhile (isBadToken E A) (window p) = []") (simp_all add: skipBadTokens_closed)
  show "window p = takeWhile (isBadToken E A) (window p) @ window (snd (snd (skipBadTokens E A c p)))"
    by (simp add: skipBadTokens_closed)
qed

lemma flattenList_append:
  "flattenList F (xs @ ys) = flattenList F xs @ flattenList F ys"
proof (induction xs)
  case Nil
  show ?case by simp
next
  case (Cons x xs)
  then show ?case by (cases x) simp_all
qed

lemma skipBadTokens_action:
  "fst (skipBadTokens E A c p) =
     (if E (kind (peek (snd (snd (skipBadTokens E A c p))))) then Continue else Abort)"
  by (simp add: skipBadTokens_closed peek_def)

lemma skipBadTokens_window:
  "window (snd (snd (skipBadTokens E A c p))) = dropWhile (isBadToken E A) (window p)"
  by (simp add: skipBadTokens_closed)

lemma skipBadTokens_continue_shorter:
  assumes "\<not> E (kind (peek p))" and "fst (skipBadTokens E A c p) \<noteq> Abort"
  shows "length (window (snd (snd (skipBadTokens E A c p)))) < length (window p)"
proof -
  have "E (kind (currentOf (dropWhile (isBadToken E A) (window p)) (sourceEnd p)))"
    using assms(2) by (simp add: skipBadTokens_closed split: if_splits)
  moreover have "\<not> E (kind (currentOf (window p) (sourceEnd p)))"
    using assms(1) by (simp add: peek_def)
  ultimately show ?thesis
    by (simp add: skipBadTokens_window skip_continue_shorter)
qed

lemma prependTrivia_Node_empty: "prependTrivia_Node n emptyTrivia = (n, emptyTrivia)"
  by (simp add: prependTrivia_Node_def)

lemma pendingSkipped_empty: "pendingSkipped emptyTrivia"
  by (simp add: pendingSkipped_def)

lemma separatorLoop_attaches:
  assumes att: "attaches F G"
    and item: "itemPreserves F G parseItem"
    and prog: "itemProgresses E N sepKind parseItem"
    and eof: "\<And>e. sepKind = EndOfFile \<Longrightarrow> F (Token EndOfFile e [] [] False) = []"
  shows "list_all isLexed (window p) \<Longrightarrow> pendingSkipped sk \<Longrightarrow>
         (sk \<noteq> emptyTrivia \<Longrightarrow> E (kind (peek p)) \<or> N (kind (peek p))) \<Longrightarrow>
         \<exists>buffer' sk' p'.
            separatorLoop E N parseItem sepKind c buffer sk p = Some (buffer', sk', p') \<and>
            pendingSkipped sk' \<and> (\<exists>consumed. window p = consumed @ window p') \<and>
            flattenList F buffer' @ concat (map G (triviaTokens sk')) @ concat (map G (window p')) =
            flattenList F buffer @ concat (map G (triviaTokens sk)) @ concat (map G (window p))"
proof (induction "length (window p)" arbitrary: p buffer sk rule: less_induct)
  case less
  show ?case
  proof (cases "N (kind (peek p))")
    case True
    then have "separatorLoop E N parseItem sepKind c buffer sk p = Some (buffer, sk, p)"
      by (subst separatorLoop.simps) simp
    moreover have "window p = [] @ window p" by simp
    ultimately show ?thesis using less.prems(2) by blast
  next
    case notEnd: False
    show ?thesis
    proof (cases "E (kind (peek p))")
      case True
      define sep where "sep = fst (expect sepKind p)"
      define p1 where "p1 = snd (expect sepKind p)"
      define sep' where "sep' = fst (prependTrivia_Token sep sk)"
      define item where "item = fst (parseItem False p1)"
      define p2 where "p2 = snd (parseItem False p1)"
      define buffer2 where "buffer2 = buffer @ [TOS_Token sep', TOS_Node item]"
      have sk1: "snd (prependTrivia_Token sep sk) = emptyTrivia"
        by (rule prependTrivia_Token_attaches(1) [OF att less.prems(2)])
      have unfold: "separatorLoop E N parseItem sepKind c buffer sk p =
                    separatorLoop E N parseItem sepKind c buffer2 emptyTrivia p2"
        using True notEnd sk1
        by (subst separatorLoop.simps)
           (simp add: split_beta sep_def p1_def sep'_def item_def p2_def buffer2_def
                      prependTrivia_Node_empty)
      obtain c1 where c1: "window p = c1 @ window p1" "F sep = concat (map G c1)"
        using expect_attaches [OF att less.prems(1), of sepKind] eof
        unfolding sep_def p1_def by blast
      have sep': "F sep' = concat (map G (triviaTokens sk)) @ F sep"
        unfolding sep'_def by (rule prependTrivia_Token_attaches(2) [OF att less.prems(2)])
      have lex1: "list_all isLexed (window p1)"
        using less.prems(1) c1(1) by simp
      obtain c2 where c2: "window p1 = c2 @ window p2" "flattenNode F item = concat (map G c2)"
        using item lex1 unfolding itemPreserves_def item_def p2_def by blast
      have lex2: "list_all isLexed (window p2)"
        using lex1 c2(1) by simp
      have shorter: "length (window p2) < length (window p)"
      proof (cases "kind (peek p) = sepKind")
        case same: True
        have "window p \<noteq> []"
        proof
          assume "window p = []"
          then have "kind (peek p) = EndOfFile" by (simp add: peek_def)
          then show False using True notEnd prog by (simp add: itemProgresses_def)
        qed
        then have "length (window p1) < length (window p)"
          using same by (simp add: p1_def expect_match)
        moreover have "length (window p2) \<le> length (window p1)"
          using c2(1) by simp
        ultimately show ?thesis by simp
      next
        case other: False
        then have p1: "window p1 = window p" "peek p1 = peek p"
          by (simp_all add: p1_def expect_mismatch peek_def)
        have "E (kind (peek p1)) \<and> \<not> N (kind (peek p1)) \<and> kind (peek p1) \<noteq> sepKind"
          using p1 True notEnd other by simp
        then have "length (window (snd (parseItem False p1))) < length (window p1)"
          using prog unfolding itemProgresses_def by blast
        then show ?thesis using p1 by (simp add: p2_def)
      qed
      have "\<exists>buffer' sk' p'.
              separatorLoop E N parseItem sepKind c buffer2 emptyTrivia p2 = Some (buffer', sk', p') \<and>
              pendingSkipped sk' \<and> (\<exists>consumed. window p2 = consumed @ window p') \<and>
              flattenList F buffer' @ concat (map G (triviaTokens sk')) @ concat (map G (window p')) =
              flattenList F buffer2 @ concat (map G (triviaTokens emptyTrivia)) @
              concat (map G (window p2))"
        by (rule less.hyps [OF shorter lex2 pendingSkipped_empty]) simp
      then obtain buffer' sk' p' c3 where
        res: "separatorLoop E N parseItem sepKind c buffer2 emptyTrivia p2 = Some (buffer', sk', p')"
          "pendingSkipped sk'" "window p2 = c3 @ window p'"
          "flattenList F buffer' @ concat (map G (triviaTokens sk')) @ concat (map G (window p')) =
           flattenList F buffer2 @ concat (map G (window p2))"
        by auto
      have "flattenList F buffer2 @ concat (map G (window p2)) =
            flattenList F buffer @ concat (map G (triviaTokens sk)) @ concat (map G (window p))"
        using c1 c2 sep' by (simp add: buffer2_def flattenList_append)
      moreover have "window p = (c1 @ c2 @ c3) @ window p'"
        using c1(1) c2(1) res(3) by simp
      ultimately show ?thesis using unfold res by metis
    next
      case False
      then have sk: "sk = emptyTrivia" using less.prems(3) notEnd by blast
      define action where "action = fst (skipBadTokens E N c p)"
      define sk1 where "sk1 = fst (snd (skipBadTokens E N c p))"
      define p1 where "p1 = snd (snd (skipBadTokens E N c p))"
      have unfold: "separatorLoop E N parseItem sepKind c buffer sk p =
                    (if action = Abort then Some (buffer, sk1, p1)
                     else separatorLoop E N parseItem sepKind c buffer sk1 p1)"
        using False notEnd
        by (subst separatorLoop.simps) (simp add: split_beta action_def sk1_def p1_def)
      have pend1: "pendingSkipped sk1"
        unfolding sk1_def by (rule skipBadTokens_attaches(1) [OF less.prems(1)])
      have text1: "concat (map G (triviaTokens sk1)) @ concat (map G (window p1)) =
                   concat (map G (window p))"
        unfolding sk1_def p1_def by (rule skipBadTokens_attaches(2) [OF less.prems(1)])
      have win1: "window p = takeWhile (isBadToken E N) (window p) @ window p1"
        unfolding p1_def by (rule skipBadTokens_attaches(3) [OF less.prems(1)])
      have lex1: "list_all isLexed (window p1)"
        using less.prems(1) win1 by (metis list_all_append)
      show ?thesis
      proof (cases "action = Abort")
        case True
        then have "separatorLoop E N parseItem sepKind c buffer sk p = Some (buffer, sk1, p1)"
          using unfold by simp
        then show ?thesis using pend1 text1 win1 sk by auto
      next
        case cont: False
        then have exp1: "E (kind (peek p1))"
          using skipBadTokens_action [of E N c p] unfolding action_def p1_def
          by (simp split: if_splits)
        have shorter: "length (window p1) < length (window p)"
          using False cont unfolding action_def p1_def
          by (rule skipBadTokens_continue_shorter)
        have "\<exists>buffer' sk' p'.
                separatorLoop E N parseItem sepKind c buffer sk1 p1 = Some (buffer', sk', p') \<and>
                pendingSkipped sk' \<and> (\<exists>consumed. window p1 = consumed @ window p') \<and>
                flattenList F buffer' @ concat (map G (triviaTokens sk')) @ concat (map G (window p')) =
                flattenList F buffer @ concat (map G (triviaTokens sk1)) @
                concat (map G (window p1))"
          using exp1 by (intro less.hyps [OF shorter lex1 pend1]) simp
        then obtain buffer' sk' p' c3 where
          res: "separatorLoop E N parseItem sepKind c buffer sk1 p1 = Some (buffer', sk', p')"
            "pendingSkipped sk'" "window p1 = c3 @ window p'"
            "flattenList F buffer' @ concat (map G (triviaTokens sk')) @ concat (map G (window p')) =
             flattenList F buffer @ concat (map G (triviaTokens sk1)) @ concat (map G (window p1))"
          by auto
        have "window p = (takeWhile (isBadToken E N) (window p) @ c3) @ window p'"
          using win1 res(3) by simp
        moreover have "flattenList F buffer' @ concat (map G (triviaTokens sk')) @
                       concat (map G (window p')) =
                       flattenList F buffer @ concat (map G (triviaTokens sk)) @
                       concat (map G (window p))"
          using res(4) text1 sk by simp
        ultimately show ?thesis using unfold cont res(1,2) by metis
      qed
    qed
  qed
qed

lemma itemLoop_attaches:
  assumes att: "attaches F G"
    and item: "itemPreserves F G parseItem"
    and prog: "itemProgresses E N sepKind parseItem"
    and eof: "\<And>e. sepKind = EndOfFile \<Longrightarrow> F (Token EndOfFile e [] [] False) = []"
  shows "list_all isLexed (window p) \<Longrightarrow> pendingSkipped sk \<Longrightarrow>
         (sk \<noteq> emptyTrivia \<Longrightarrow> E (kind (peek p))) \<Longrightarrow>
         \<exists>buffer' sk' p'.
            itemLoop E N parseItem sepKind c buffer sk p = Some (buffer', sk', p') \<and>
            pendingSkipped sk' \<and> (\<exists>consumed. window p = consumed @ window p') \<and>
            flattenList F buffer' @ concat (map G (triviaTokens sk')) @ concat (map G (window p')) =
            flattenList F buffer @ concat (map G (triviaTokens sk)) @ concat (map G (window p))"
proof (induction "length (window p)" arbitrary: p sk rule: less_induct)
  case less
  show ?case
  proof (cases "E (kind (peek p))")
    case True
    define node where "node = fst (parseItem True p)"
    define p1 where "p1 = snd (parseItem True p)"
    define node' where "node' = fst (prependTrivia_Node node sk)"
    define buffer1 where "buffer1 = buffer @ [TOS_Node node']"
    obtain c1 where c1: "window p = c1 @ window p1" "flattenNode F node = concat (map G c1)"
      and first: "getFirstToken node \<noteq> None"
      using item less.prems(1) unfolding itemPreserves_def node_def p1_def by blast
    have sk1: "snd (prependTrivia_Node node sk) = emptyTrivia"
      by (rule prependTrivia_Node_attaches(1) [OF att less.prems(2) first])
    have node': "flattenNode F node' = concat (map G (triviaTokens sk)) @ flattenNode F node"
      unfolding node'_def by (rule prependTrivia_Node_attaches(2) [OF att less.prems(2) first])
    have unfold: "itemLoop E N parseItem sepKind c buffer sk p =
                  separatorLoop E N parseItem sepKind c buffer1 emptyTrivia p1"
      using True sk1
      by (subst itemLoop.simps)
         (simp add: split_beta node_def p1_def node'_def buffer1_def)
    have lex1: "list_all isLexed (window p1)"
      using less.prems(1) c1(1) by simp
    have "\<exists>buffer' sk' p'.
            separatorLoop E N parseItem sepKind c buffer1 emptyTrivia p1 = Some (buffer', sk', p') \<and>
            pendingSkipped sk' \<and> (\<exists>consumed. window p1 = consumed @ window p') \<and>
            flattenList F buffer' @ concat (map G (triviaTokens sk')) @ concat (map G (window p')) =
            flattenList F buffer1 @ concat (map G (triviaTokens emptyTrivia)) @
            concat (map G (window p1))"
      using eof
      by (intro separatorLoop_attaches [OF att item prog _ lex1 pendingSkipped_empty]) simp_all
    then obtain buffer' sk' p' c3 where
      res: "separatorLoop E N parseItem sepKind c buffer1 emptyTrivia p1 = Some (buffer', sk', p')"
        "pendingSkipped sk'" "window p1 = c3 @ window p'"
        "flattenList F buffer' @ concat (map G (triviaTokens sk')) @ concat (map G (window p')) =
         flattenList F buffer1 @ concat (map G (window p1))"
      by auto
    have "flattenList F buffer1 @ concat (map G (window p1)) =
          flattenList F buffer @ concat (map G (triviaTokens sk)) @ concat (map G (window p))"
      using c1 node' by (simp add: buffer1_def flattenList_append)
    moreover have "window p = (c1 @ c3) @ window p'"
      using c1(1) res(3) by simp
    ultimately show ?thesis using unfold res by metis
  next
    case False
    then have sk: "sk = emptyTrivia" using less.prems(3) by blast
    define action where "action = fst (skipBadTokens E N c p)"
    define sk1 where "sk1 = fst (snd (skipBadTokens E N c p))"
    define p1 where "p1 = snd (snd (skipBadTokens E N c p))"
    have unfold: "itemLoop E N parseItem sepKind c buffer sk p =
                  (if action = Abort then Some (buffer, sk1, p1)
                   else itemLoop E N parseItem sepKind c buffer sk1 p1)"
      using False
      by (subst itemLoop.simps) (simp add: split_beta action_def sk1_def p1_def)
    have pend1: "pendingSkipped sk1"
      unfolding sk1_def by (rule skipBadTokens_attaches(1) [OF less.prems(1)])
    have text1: "concat (map G (triviaTokens sk1)) @ concat (map G (window p1)) =
                 concat (map G (window p))"
      unfolding sk1_def p1_def by (rule skipBadTokens_attaches(2) [OF less.prems(1)])
    have win1: "window p = takeWhile (isBadToken E N) (window p) @ window p1"
      unfolding p1_def by (rule skipBadTokens_attaches(3) [OF less.prems(1)])
    have lex1: "list_all isLexed (window p1)"
      using less.prems(1) win1 by (metis list_all_append)
    show ?thesis
    proof (cases "action = Abort")
      case True
      then have "itemLoop E N parseItem sepKind c buffer sk p = Some (buffer, sk1, p1)"
        using unfold by simp
      then show ?thesis using pend1 text1 win1 sk by auto
    next
      case cont: False
      then have exp1: "E (kind (peek p1))"
        using skipBadTokens_action [of E N c p] unfolding action_def p1_def
        by (simp split: if_splits)
      have shorter: "length (window p1) < length (window p)"
        using False cont unfolding action_def p1_def
        by (rule skipBadTokens_continue_shorter)
      have "\<exists>buffer' sk' p'.
              itemLoop E N parseItem sepKind c buffer sk1 p1 = Some (buffer', sk', p') \<and>
              pendingSkipped sk' \<and> (\<exists>consumed. window p1 = consumed @ window p') \<and>
              flattenList F buffer' @ concat (map G (triviaTokens sk')) @ concat (map G (window p')) =
              flattenList F buffer @ concat (map G (triviaTokens sk1)) @
              concat (map G (window p1))"
        using exp1 by (intro less.hyps [OF shorter lex1 pend1]) simp
      then obtain buffer' sk' p' c3 where
        res: "itemLoop E N parseItem sepKind c buffer sk1 p1 = Some (buffer', sk', p')"
          "pendingSkipped sk'" "window p1 = c3 @ window p'"
          "flattenList F buffer' @ concat (map G (triviaTokens sk')) @ concat (map G (window p')) =
           flattenList F buffer @ concat (map G (triviaTokens sk1)) @ concat (map G (window p1))"
        by auto
      have "window p = (takeWhile (isBadToken E N) (window p) @ c3) @ window p'"
        using win1 res(3) by simp
      moreover have "flattenList F buffer' @ concat (map G (triviaTokens sk')) @
                     concat (map G (window p')) =
                     flattenList F buffer @ concat (map G (triviaTokens sk)) @
                     concat (map G (window p))"
        using res(4) text1 sk by simp
      ultimately show ?thesis using unfold cont res(1,2) by metis
    qed
  qed
qed

lemma parseListItems_attaches:
  assumes att: "attaches F G"
    and item: "itemPreserves F G parseItem"
    and prog: "itemProgresses E N sepKind parseItem"
    and eof: "\<And>e. sepKind = EndOfFile \<Longrightarrow> F (Token EndOfFile e [] [] False) = []"
    and lex: "list_all isLexed (window p)"
  shows "\<exists>buffer' sk' p'.
            parseListItems E N parseItem buffer sepKind c p = Some (buffer', sk', p') \<and>
            pendingSkipped sk' \<and> (\<exists>consumed. window p = consumed @ window p') \<and>
            flattenList F buffer' @ concat (map G (triviaTokens sk')) @ concat (map G (window p')) =
            flattenList F buffer @ concat (map G (window p))"
proof (cases "N (kind (peek p))")
  case True
  have "window p = [] @ window p" by simp
  then show ?thesis using True pendingSkipped_empty
    by (auto simp add: parseListItems_def)
next
  case False
  have "\<exists>buffer' sk' p'.
          itemLoop E N parseItem sepKind c buffer emptyTrivia p = Some (buffer', sk', p') \<and>
          pendingSkipped sk' \<and> (\<exists>consumed. window p = consumed @ window p') \<and>
          flattenList F buffer' @ concat (map G (triviaTokens sk')) @ concat (map G (window p')) =
          flattenList F buffer @ concat (map G (triviaTokens emptyTrivia)) @
          concat (map G (window p))"
    using eof
    by (intro itemLoop_attaches [OF att item prog _ lex pendingSkipped_empty]) simp_all
  then show ?thesis using False by (simp add: parseListItems_def)
qed

lemma parseSeparatedListInto_attaches:
  assumes att: "attaches F G"
    and item: "itemPreserves F G parseItem"
    and prog: "itemProgresses E N sepKind parseItem"
    and eof: "\<And>e. sepKind = EndOfFile \<or> closeKind = EndOfFile \<Longrightarrow>
                  F (Token EndOfFile e [] [] False) = []"
    and lex: "list_all isLexed (window p)"
  shows "\<exists>buffer' closeToken p'.
            parseSeparatedListInto E N parseItem buffer closeKind sepKind c p =
              Some (buffer', closeToken, p') \<and>
            (\<exists>consumed. window p = consumed @ window p') \<and>
            flattenList F buffer' @ F closeToken @ concat (map G (window p')) =
            flattenList F buffer @ concat (map G (window p))"
proof -
  have "\<exists>buffer' sk' p'.
          parseListItems E N parseItem buffer sepKind c p = Some (buffer', sk', p') \<and>
          pendingSkipped sk' \<and> (\<exists>consumed. window p = consumed @ window p') \<and>
          flattenList F buffer' @ concat (map G (triviaTokens sk')) @ concat (map G (window p')) =
          flattenList F buffer @ concat (map G (window p))"
    using eof by (intro parseListItems_attaches [OF att item prog _ lex]) simp
  then obtain buffer' sk' p1 c1 where
    body: "parseListItems E N parseItem buffer sepKind c p = Some (buffer', sk', p1)"
      "pendingSkipped sk'" "window p = c1 @ window p1"
      "flattenList F buffer' @ concat (map G (triviaTokens sk')) @ concat (map G (window p1)) =
       flattenList F buffer @ concat (map G (window p))"
    by auto
  define token where "token = fst (expect closeKind p1)"
  define p2 where "p2 = snd (expect closeKind p1)"
  define closeToken where "closeToken = fst (prependTrivia_Token token sk')"
  have lex1: "list_all isLexed (window p1)"
    using lex body(3) by simp
  obtain c2 where c2: "window p1 = c2 @ window p2" "F token = concat (map G c2)"
    using expect_attaches [OF att lex1, of closeKind] eof
    unfolding token_def p2_def by blast
  have close: "F closeToken = concat (map G (triviaTokens sk')) @ F token"
    unfolding closeToken_def by (rule prependTrivia_Token_attaches(2) [OF att body(2)])
  have result: "parseSeparatedListInto E N parseItem buffer closeKind sepKind c p =
                  Some (buffer', closeToken, p2)"
    using body(1)
    by (simp add: parseSeparatedListInto_def split_beta token_def p2_def closeToken_def)
  have "flattenList F buffer' @ F closeToken @ concat (map G (window p2)) =
        flattenList F buffer @ concat (map G (window p))"
    using body(4) close c2 by simp
  moreover have "window p = (c1 @ c2) @ window p2"
    using body(3) c2(1) by simp
  ultimately show ?thesis using result by blast
qed

lemma parseSeparatedList_attaches:
  assumes att: "attaches F G"
    and item: "itemPreserves F G parseItem"
    and prog: "itemProgresses E N sepKind parseItem"
    and eof: "\<And>e. openKind = EndOfFile \<or> sepKind = EndOfFile \<or> closeKind = EndOfFile \<Longrightarrow>
                  F (Token EndOfFile e [] [] False) = []"
    and lex: "list_all isLexed (window p)"
  shows "\<exists>openToken list closeToken p'.
            parseSeparatedList E N parseItem openKind closeKind sepKind c p =
              Some (openToken, list, closeToken, p') \<and>
            (\<exists>consumed. window p = consumed @ window p') \<and>
            F openToken @ flattenList F list @ F closeToken @ concat (map G (window p')) =
            concat (map G (window p))"
proof -
  define openToken where "openToken = fst (expect openKind p)"
  define p1 where "p1 = snd (expect openKind p)"
  obtain c1 where c1: "window p = c1 @ window p1" "F openToken = concat (map G c1)"
    using expect_attaches [OF att lex, of openKind] eof
    unfolding openToken_def p1_def by blast
  have lex1: "list_all isLexed (window p1)"
    using lex c1(1) by simp
  have "\<exists>buffer' closeToken p'.
          parseSeparatedListInto E N parseItem [] closeKind sepKind c p1 =
            Some (buffer', closeToken, p') \<and>
          (\<exists>consumed. window p1 = consumed @ window p') \<and>
          flattenList F buffer' @ F closeToken @ concat (map G (window p')) =
          flattenList F [] @ concat (map G (window p1))"
    using eof by (intro parseSeparatedListInto_attaches [OF att item prog _ lex1]) blast
  then obtain list closeToken p' c2 where
    res: "parseSeparatedListInto E N parseItem [] closeKind sepKind c p1 =
            Some (list, closeToken, p')"
      "window p1 = c2 @ window p'"
      "flattenList F list @ F closeToken @ concat (map G (window p')) = concat (map G (window p1))"
    by auto
  have result: "parseSeparatedList E N parseItem openKind closeKind sepKind c p =
                  Some (openToken, list, closeToken, p')"
    using res(1) by (simp add: parseSeparatedList_def split_beta openToken_def p1_def)
  have "F openToken @ flattenList F list @ F closeToken @ concat (map G (window p')) =
        concat (map G (window p))"
    using c1 res(3) by simp
  moreover have "window p = (c1 @ c2) @ window p'"
    using c1(1) res(2) by simp
  ultimately show ?thesis using result by blast
qed

lemmas example_defs =
  whitespace_def tokOpen_def tokA_def tokComma_def tokPercent_def tokComma2_def tokB_def
  tokClose_def tokSemicolon_def parserOn_def isIdentifierOrComma_def isCloseParenthesis_def
  isEndOfParenList_def

section \<open>Claims about skipBadTokens\<close>

text \<open>
  Claim C2. When the current token is not expected, \<open>skipBadTokens\<close> emits exactly one
  diagnostic of the given code, at the location of the first unexpected token. It consumes
  the longest run of tokens that are neither expected, nor the end of the file, nor abort
  tokens, and stops in front of the next token: the result is \<open>Continue\<close> exactly if that
  token is expected, and \<open>Abort\<close> exactly if it is not, in which case it is the end of
  the file or an abort token. The value assigned to \<open>*skippedTokens\<close> is a
  \<open>SkippedTokens\<close> trivium holding exactly the consumed tokens, or the empty trivium if
  nothing was consumed.
\<close>

theorem skipBadTokens_unexpected:
  assumes "\<not> IsExpected (kind (peek p))"
  shows "case skipBadTokens IsExpected IsAbort c p of (action, skipped, p') \<Rightarrow>
           diagnostics p' = diagnostics p @ [Diagnostic c (location (peek p)) []]
         \<and> window p = takeWhile (isBadToken IsExpected IsAbort) (window p) @ window p'
         \<and> window p' = dropWhile (isBadToken IsExpected IsAbort) (window p)
         \<and> skipped = (if takeWhile (isBadToken IsExpected IsAbort) (window p) = []
                       then emptyTrivia
                       else skippedTrivia (takeWhile (isBadToken IsExpected IsAbort) (window p)))
         \<and> (action = Continue \<longleftrightarrow> IsExpected (kind (peek p')))
         \<and> (action = Abort \<longleftrightarrow>
              \<not> IsExpected (kind (peek p')) \<and>
              (kind (peek p') = EndOfFile \<or> IsAbort (kind (peek p'))))"
proof -
  have nb: "\<not> isBadToken IsExpected IsAbort
              (currentOf (dropWhile (isBadToken IsExpected IsAbort) (window p)) (sourceEnd p))"
    by (rule currentOf_dropWhile_not_bad)
  show ?thesis using assms nb
    by (auto simp add: skipBadTokens_closed peek_def isBadToken_def)
qed

theorem skipBadTokens_unexpected_witness:
  "\<not> isIdentifierOrComma (kind (peek (parserOn [tokPercent, tokComma2, tokB, tokClose] 9)))
   \<and> (case skipBadTokens isIdentifierOrComma isEndOfParenList (DiagCode 1)
             (parserOn [tokPercent, tokComma2, tokB, tokClose] 9) of
        (action, skipped, p') \<Rightarrow>
          action = Continue \<and> skipped = skippedTrivia [tokPercent]
        \<and> diagnostics p' = [Diagnostic (DiagCode 1) 4 []]
        \<and> window p' = [tokComma2, tokB, tokClose])"
proof -
  have h: "\<not> isIdentifierOrComma (kind (peek (parserOn [tokPercent, tokComma2, tokB, tokClose] 9)))"
    by (simp add: example_defs peek_def)
  from skipBadTokens_unexpected
         [where IsExpected = isIdentifierOrComma and IsAbort = isEndOfParenList
            and c = "DiagCode 1" and p = "parserOn [tokPercent, tokComma2, tokB, tokClose] 9",
          OF h] h
  show ?thesis
    by (simp add: example_defs peek_def isBadToken_def split_beta)
qed

text \<open>
  Claim C9. \<open>skipBadTokens\<close> never consumes the token that ends the skip: the tokens it
  consumed are exactly the run of bad tokens in front of the window, and the token that
  stopped the loop is the current token afterwards: an expected token on \<open>Continue\<close>,
  an abort token or the end of the file on \<open>Abort\<close>.
\<close>

theorem skipBadTokens_leaves_terminator:
  "case skipBadTokens IsExpected IsAbort c p of (action, skipped, p') \<Rightarrow>
       window p = takeWhile (isBadToken IsExpected IsAbort) (window p) @ window p'
     \<and> peek p' = currentOf (dropWhile (isBadToken IsExpected IsAbort) (window p)) (sourceEnd p)
     \<and> \<not> isBadToken IsExpected IsAbort (peek p')
     \<and> (action = Continue \<longrightarrow> IsExpected (kind (peek p')))
     \<and> (action = Abort \<longrightarrow> kind (peek p') = EndOfFile \<or> IsAbort (kind (peek p')))"
proof -
  have nb: "\<not> isBadToken IsExpected IsAbort
              (currentOf (dropWhile (isBadToken IsExpected IsAbort) (window p)) (sourceEnd p))"
    by (rule currentOf_dropWhile_not_bad)
  show ?thesis using nb
    by (auto simp add: skipBadTokens_closed peek_def isBadToken_def)
qed

theorem skipBadTokens_leaves_terminator_witness:
  "(case skipBadTokens isIdentifierOrComma isEndOfParenList (DiagCode 1)
           (parserOn [tokPercent, tokClose, tokB] 9) of
      (action, skipped, p') \<Rightarrow>
        action = Abort \<and> peek p' = tokClose \<and> window p' = [tokClose, tokB]
      \<and> isEndOfParenList (kind (peek p')))
   \<and> (case skipBadTokens isIdentifierOrComma isEndOfParenList (DiagCode 1)
           (parserOn [tokPercent, tokPercent, tokB, tokClose] 9) of
      (action, skipped, p') \<Rightarrow>
        action = Continue \<and> peek p' = tokB \<and> window p' = [tokB, tokClose]
      \<and> isIdentifierOrComma (kind (peek p')))
   \<and> (case skipBadTokens isIdentifierOrComma isEndOfParenList (DiagCode 1)
           (parserOn [tokPercent] 9) of
      (action, skipped, p') \<Rightarrow>
        action = Abort \<and> kind (peek p') = EndOfFile \<and> window p' = [])"
  using skipBadTokens_leaves_terminator
          [where IsExpected = isIdentifierOrComma and IsAbort = isEndOfParenList
             and c = "DiagCode 1" and p = "parserOn [tokPercent, tokClose, tokB] 9"]
        skipBadTokens_leaves_terminator
          [where IsExpected = isIdentifierOrComma and IsAbort = isEndOfParenList
             and c = "DiagCode 1" and p = "parserOn [tokPercent, tokPercent, tokB, tokClose] 9"]
        skipBadTokens_leaves_terminator
          [where IsExpected = isIdentifierOrComma and IsAbort = isEndOfParenList
             and c = "DiagCode 1" and p = "parserOn [tokPercent] 9"]
  by (simp add: example_defs peek_def isBadToken_def split_beta skipBadTokens_closed)

text \<open>
  Claim C10. Called while the current token is already expected, whatever the abort
  predicate says of that token, \<open>skipBadTokens\<close> returns \<open>Continue\<close>, assigns the empty
  trivium and leaves the parser as it was: no token consumed, no diagnostic emitted.
\<close>

theorem skipBadTokens_already_expected:
  assumes "IsExpected (kind (peek p))"
  shows "skipBadTokens IsExpected IsAbort c p = (Continue, emptyTrivia, p)"
  using assms
  by (simp add: skipBadTokens_closed peek_def dropWhile_bad_expected takeWhile_bad_expected)

theorem skipBadTokens_already_expected_witness:
  "isIdentifierOrComma (kind (peek (parserOn [tokComma2, tokB, tokClose] 9)))
   \<and> (\<lambda>k. k = Comma \<or> k = CloseParenthesis) (kind (peek (parserOn [tokComma2, tokB, tokClose] 9)))
   \<and> skipBadTokens isIdentifierOrComma (\<lambda>k. k = Comma \<or> k = CloseParenthesis) (DiagCode 1)
         (parserOn [tokComma2, tokB, tokClose] 9) =
       (Continue, emptyTrivia, parserOn [tokComma2, tokB, tokClose] 9)
   \<and> diagnostics (parserOn [tokComma2, tokB, tokClose] 9) = []"
proof -
  have h: "isIdentifierOrComma (kind (peek (parserOn [tokComma2, tokB, tokClose] 9)))"
    by (simp add: example_defs peek_def)
  from skipBadTokens_already_expected
         [where IsExpected = isIdentifierOrComma and IsAbort = "\<lambda>k. k = Comma \<or> k = CloseParenthesis"
            and c = "DiagCode 1" and p = "parserOn [tokComma2, tokB, tokClose] 9", OF h] h
  show ?thesis by (simp add: example_defs peek_def)
qed

section \<open>Claims about the separated-list recognizer\<close>

lemma withTrivia_simps [simp]:
  "trivia (withTrivia t trv) = trv"
  "isMissing (withTrivia t trv) = isMissing t"
  "kind (withTrivia t trv) = kind t"
  "withTrivia (withTrivia t trv) trv' = withTrivia t trv'"
  "withTrivia t (trivia t) = t"
  by (simp_all add: withTrivia_def)

lemma renderToken_withTrivia:
  "renderToken (withTrivia t (tr # trivia t)) = renderTrivia tr @ renderToken t"
  by (cases t) (simp add: withTrivia_def)

lemma renderTrivia_skipped [simp]:
  "renderTrivia (skippedTrivia toks) = concat (map renderToken toks)"
  by (simp add: skippedTrivia_def)

lemma isSkipped_skippedTrivia [simp]: "isSkipped (skippedTrivia toks)"
  by (simp add: isSkipped_def)

lemma filter_not_skipped:
  "list_all (\<lambda>tr. \<not> isSkipped tr) trv \<Longrightarrow> filter isSkipped trv = []"
  "list_all (\<lambda>tr. \<not> isSkipped tr) trv \<Longrightarrow> filter (\<lambda>tr. \<not> isSkipped tr) trv = trv"
  by (induction trv) simp_all

lemma attaches_treeText: "attaches treeText renderToken"
  unfolding attaches_def
proof (intro conjI allI impI)
  fix t toks
  show "treeText (withTrivia t (skippedTrivia toks # trivia t)) =
          concat (map renderToken toks) @ treeText t"
    by (simp add: treeText_def renderToken_withTrivia)
next
  fix k loc trv
  assume "list_all (\<lambda>tr. \<not> isSkipped tr) trv"
  then show "treeText (Token k loc [] trv True) = []"
    by (simp add: treeText_def filter_not_skipped)
next
  fix t
  assume "isLexed t"
  then show "treeText t = renderToken t"
    by (simp add: treeText_def isLexed_def)
qed

lemma concat_singletons: "concat (map (\<lambda>t. [t]) ts) = ts"
  by (induction ts) simp_all

lemma attaches_sourceTokens: "attaches sourceTokens (\<lambda>t. [t])"
  unfolding attaches_def
proof (intro conjI allI impI)
  fix t toks
  show "sourceTokens (withTrivia t (skippedTrivia toks # trivia t)) =
          concat (map (\<lambda>t. [t]) toks) @ sourceTokens t"
    by (simp add: sourceTokens_def concat_singletons)
next
  fix k loc trv
  assume "list_all (\<lambda>tr. \<not> isSkipped tr) trv"
  then show "sourceTokens (Token k loc [] trv True) = []"
    by (simp add: sourceTokens_def filter_not_skipped)
next
  fix t
  assume "isLexed t"
  then show "sourceTokens t = [t]"
    by (simp add: sourceTokens_def isLexed_def filter_not_skipped)
qed

lemma parseIdentifier_preserves:
  assumes "attaches F G"
  shows "itemPreserves F G parseIdentifier"
  unfolding itemPreserves_def
proof (intro allI impI conjI)
  fix b and p :: ParserBase
  assume lex: "list_all isLexed (window p)"
  show "getFirstToken (fst (parseIdentifier b p)) \<noteq> None"
    by (simp add: parseIdentifier_def split_beta)
  obtain consumed where "window p = consumed @ window (snd (expect Identifier p))"
    "F (fst (expect Identifier p)) = concat (map G consumed)"
    using expect_attaches [OF assms lex, of Identifier] by auto
  then show "\<exists>consumed. window p = consumed @ window (snd (parseIdentifier b p)) \<and>
               flattenNode F (fst (parseIdentifier b p)) = concat (map G consumed)"
    by (auto simp add: parseIdentifier_def split_beta)
qed

lemma parseIdentifier_progresses:
  "itemProgresses isIdentifierOrComma isEndOfParenList Comma parseIdentifier"
  unfolding itemProgresses_def
proof (intro conjI allI impI)
  show "isIdentifierOrComma EndOfFile \<Longrightarrow> isEndOfParenList EndOfFile"
    by (simp add: isIdentifierOrComma_def)
next
  fix b and p :: ParserBase
  assume "isIdentifierOrComma (kind (peek p)) \<and> \<not> isEndOfParenList (kind (peek p)) \<and>
          kind (peek p) \<noteq> Comma"
  then have k: "kind (peek p) = Identifier"
    by (auto simp add: isIdentifierOrComma_def)
  then have "window p \<noteq> []" by (auto simp add: peek_def)
  then show "length (window (snd (parseIdentifier b p))) < length (window p)"
    using k by (simp add: parseIdentifier_def split_beta expect_match)
qed

lemma listSource_result:
  "parseIdentifierList (parserOn listSource 9) =
     Some (tokOpen,
           [TOS_Node (SyntaxNode 0 [TOS_Token tokA]),
            TOS_Token tokComma,
            TOS_Node (SyntaxNode 0 [TOS_Token (Token Identifier 4 [] [whitespace] True)]),
            TOS_Token (withTrivia tokComma2 [skippedTrivia [tokPercent]]),
            TOS_Node (SyntaxNode 0 [TOS_Token tokB])],
           tokClose,
           \<lparr>window = [tokEOF], sourceEnd = 9, lastConsumed = Some tokClose,
             diagnostics = [Diagnostic ExpectedToken 4 [Identifier], Diagnostic (DiagCode 1) 4 []]\<rparr>)"
  by code_simp

text \<open>
  What the list parser keeps of the source text. On input as the token source yields it,
  and with an item parser that itself preserves the text of what it consumes and makes
  progress, \<open>parseSeparatedList\<close> returns, and the walk over the open token, the list and
  the close token, followed by the tokens left in the window, yields the source text, when
  a present token contributes its leading trivia and its text, a \<open>SkippedTokens\<close>
  trivium the text of the tokens it holds, and a missing token only the skipped tokens
  attached to it.
\<close>

lemma parseSeparatedList_keeps_text:
  assumes "list_all isLexed (window p)"
    and "itemPreserves treeText renderToken parseItem"
    and "itemProgresses IsExpected IsEnd separatorKind parseItem"
  shows "\<exists>openToken list closeToken p'.
           parseSeparatedList IsExpected IsEnd parseItem openKind closeKind separatorKind c p =
             Some (openToken, list, closeToken, p')
         \<and> treeText openToken @ flattenList treeText list @ treeText closeToken @
             concat (map renderToken (window p')) = concat (map renderToken (window p))"
proof -
  have "\<exists>openToken list closeToken p'.
          parseSeparatedList IsExpected IsEnd parseItem openKind closeKind separatorKind c p =
            Some (openToken, list, closeToken, p') \<and>
          (\<exists>consumed. window p = consumed @ window p') \<and>
          treeText openToken @ flattenList treeText list @ treeText closeToken @
            concat (map renderToken (window p')) = concat (map renderToken (window p))"
    by (rule parseSeparatedList_attaches [OF attaches_treeText assms(2,3) _ assms(1)])
       (simp add: treeText_def)
  then show ?thesis by blast
qed

lemma listSource_keeps_text:
  "list_all isLexed (window (parserOn listSource 9))
   \<and> itemPreserves treeText renderToken parseIdentifier
   \<and> itemProgresses isIdentifierOrComma isEndOfParenList Comma parseIdentifier
   \<and> concat (map renderToken listSource) = ''(a, %, b)''
   \<and> treeText tokOpen @
       flattenList treeText
         [TOS_Node (SyntaxNode 0 [TOS_Token tokA]),
          TOS_Token tokComma,
          TOS_Node (SyntaxNode 0 [TOS_Token (Token Identifier 4 [] [whitespace] True)]),
          TOS_Token (withTrivia tokComma2 [skippedTrivia [tokPercent]]),
          TOS_Node (SyntaxNode 0 [TOS_Token tokB])] @
       treeText tokClose @ concat (map renderToken [tokEOF]) = ''(a, %, b)''"
proof -
  have h1: "list_all isLexed (window (parserOn listSource 9))"
    by (simp add: listSource_def example_defs tokEOF_def isLexed_def isSkipped_def)
  have h2: "itemPreserves treeText renderToken parseIdentifier"
    by (rule parseIdentifier_preserves [OF attaches_treeText])
  have h3: "itemProgresses isIdentifierOrComma isEndOfParenList Comma parseIdentifier"
    by (rule parseIdentifier_progresses)
  have src: "concat (map renderToken listSource) = ''(a, %, b)''"
    by (simp add: listSource_def example_defs tokEOF_def)
  from parseSeparatedList_keeps_text
         [OF h1 h2 h3, of OpenParenthesis CloseParenthesis "DiagCode 1"]
  have "treeText tokOpen @
       flattenList treeText
         [TOS_Node (SyntaxNode 0 [TOS_Token tokA]),
          TOS_Token tokComma,
          TOS_Node (SyntaxNode 0 [TOS_Token (Token Identifier 4 [] [whitespace] True)]),
          TOS_Token (withTrivia tokComma2 [skippedTrivia [tokPercent]]),
          TOS_Node (SyntaxNode 0 [TOS_Token tokB])] @
       treeText tokClose @ concat (map renderToken [tokEOF]) =
       concat (map renderToken listSource)"
    using listSource_result
    by (simp add: parseIdentifierList_def parserOn_def)
  then show ?thesis using h1 h2 h3 src by simp
qed

text \<open>
  Claim C3, as amended. When the token after the open token ends the list, the loops are
  not entered: the result is the open token of \<open>expect\<close>, an empty list and the close
  token of \<open>expect\<close>, and the only diagnostics are those of the two \<open>expect\<close> calls, one for
  each that does not find its kind; so none is emitted when the open token and the close
  token are both there, as in \<open>()\<close>.
\<close>

theorem parseSeparatedList_empty:
  assumes "IsEnd (kind (peek (snd (expect openKind p))))"
  shows "parseSeparatedList IsExpected IsEnd parseItem openKind closeKind separatorKind c p =
           Some (fst (expect openKind p), [],
                 fst (expect closeKind (snd (expect openKind p))),
                 snd (expect closeKind (snd (expect openKind p))))
       \<and> diagnostics (snd (expect closeKind (snd (expect openKind p)))) =
           diagnostics p @
           (if kind (peek p) \<noteq> openKind
            then [Diagnostic ExpectedToken (location (peek p)) [openKind]] else []) @
           (if kind (peek (snd (expect openKind p))) \<noteq> closeKind
            then [Diagnostic ExpectedToken (location (peek (snd (expect openKind p)))) [closeKind]]
            else [])"
proof -
  have diag: "\<And>k q. diagnostics (snd (expect k q)) =
                diagnostics q @
                (if kind (peek q) \<noteq> k then [Diagnostic ExpectedToken (location (peek q)) [k]]
                 else [])"
    by (simp add: expect_mismatch expect_match)
  have "parseSeparatedList IsExpected IsEnd parseItem openKind closeKind separatorKind c p =
           Some (fst (expect openKind p), [],
                 fst (expect closeKind (snd (expect openKind p))),
                 snd (expect closeKind (snd (expect openKind p))))"
    using assms
    by (simp add: parseSeparatedList_def parseSeparatedListInto_def parseListItems_def
                  split_beta prependTrivia_Token_def)
  then show ?thesis by (simp add: diag)
qed

theorem parseSeparatedList_empty_witness:
  "isCloseParenthesis (kind (peek (snd (expect OpenParenthesis (parserOn emptyListSource 9)))))
   \<and> parseSeparatedList isIdentifierOrComma isCloseParenthesis parseIdentifier
        OpenParenthesis CloseParenthesis Comma (DiagCode 1) (parserOn emptyListSource 9) =
       Some (tokOpen, [], Token CloseParenthesis 1 '')'' [] False,
             \<lparr>window = [tokEOF], sourceEnd = 9,
               lastConsumed = Some (Token CloseParenthesis 1 '')'' [] False),
               diagnostics = []\<rparr>)"
proof -
  have h: "isCloseParenthesis
             (kind (peek (snd (expect OpenParenthesis (parserOn emptyListSource 9)))))"
    by (simp add: emptyListSource_def example_defs expect_match peek_def)
  from parseSeparatedList_empty
         [where IsEnd = isCloseParenthesis and openKind = OpenParenthesis
            and p = "parserOn emptyListSource 9" and IsExpected = isIdentifierOrComma
            and parseItem = parseIdentifier and closeKind = CloseParenthesis
            and separatorKind = Comma and c = "DiagCode 1", OF h] h
  show ?thesis
    by (simp add: emptyListSource_def example_defs expect_match peek_def)
qed

text \<open>
  Claim C3 as stated fails when the token that ends the list is not the close token: on
  \<open>( ;\<close> with the semicolon among the end tokens, the loops are skipped and \<open>expect\<close>
  reports the missing close parenthesis.
\<close>

theorem empty_list_counterexample:
  "isEndOfParenList (kind (peek (snd (expect OpenParenthesis (parserOn brokenSource 9)))))
   \<and> parseIdentifierList (parserOn brokenSource 9) =
       Some (tokOpen, [], Token CloseParenthesis 2 [] [whitespace] True,
             \<lparr>window = [tokSemicolon, tokEOF], sourceEnd = 9, lastConsumed = Some tokOpen,
               diagnostics = [Diagnostic ExpectedToken 2 [CloseParenthesis]]\<rparr>)
   \<and> diagnostics (snd (snd (snd (the (parseIdentifierList (parserOn brokenSource 9)))))) \<noteq> []"
proof -
  have "parseIdentifierList (parserOn brokenSource 9) =
     Some (tokOpen, [], Token CloseParenthesis 2 [] [whitespace] True,
           \<lparr>window = [tokSemicolon, tokEOF], sourceEnd = 9, lastConsumed = Some tokOpen,
             diagnostics = [Diagnostic ExpectedToken 2 [CloseParenthesis]]\<rparr>)"
    by code_simp
  moreover have
    "isEndOfParenList (kind (peek (snd (expect OpenParenthesis (parserOn brokenSource 9)))))"
    by (simp add: brokenSource_def example_defs expect_match peek_def)
  ultimately show ?thesis by simp
qed

text \<open>
  Claim C4. On input as the token source yields it, with an item parser that accounts for
  the tokens it consumes and makes progress, the loops of \<open>parseSeparatedList\<close> return with
  an accumulator that is empty or holds one \<open>SkippedTokens\<close> trivium; that residue is
  prepended to the close token; and the tokens the result accounts for (each surviving
  token preceded by the skipped runs attached to it) followed by the tokens left in the
  window are exactly the tokens of the input, in order: every skipped run is attached
  once, to the next surviving token, and none is lost.
\<close>

theorem skipped_runs_attached_once:
  assumes lex: "list_all isLexed (window p)"
    and item: "itemPreserves sourceTokens (\<lambda>t. [t]) parseItem"
    and prog: "itemProgresses IsExpected IsEnd separatorKind parseItem"
    and kinds: "separatorKind \<noteq> EndOfFile" "closeKind \<noteq> EndOfFile"
  shows "\<exists>list skipped p1 closeToken p'.
           parseListItems IsExpected IsEnd parseItem buffer separatorKind c p =
             Some (list, skipped, p1)
         \<and> pendingSkipped skipped
         \<and> parseSeparatedListInto IsExpected IsEnd parseItem buffer closeKind separatorKind c p =
             Some (list, closeToken, p')
         \<and> trivia closeToken =
             (if skipped = emptyTrivia then [] else [skipped]) @ trivia (fst (expect closeKind p1))
         \<and> flattenList sourceTokens list @ sourceTokens closeToken @ window p' =
             flattenList sourceTokens buffer @ window p"
proof -
  have "\<exists>buffer' sk' p'.
          parseListItems IsExpected IsEnd parseItem buffer separatorKind c p =
            Some (buffer', sk', p') \<and>
          pendingSkipped sk' \<and> (\<exists>consumed. window p = consumed @ window p') \<and>
          flattenList sourceTokens buffer' @ concat (map (\<lambda>t. [t]) (triviaTokens sk')) @
            concat (map (\<lambda>t. [t]) (window p')) =
          flattenList sourceTokens buffer @ concat (map (\<lambda>t. [t]) (window p))"
    using kinds(1)
    by (intro parseListItems_attaches [OF attaches_sourceTokens item prog _ lex]) simp
  then obtain list skipped p1 c1 where
    body: "parseListItems IsExpected IsEnd parseItem buffer separatorKind c p =
             Some (list, skipped, p1)"
      "pendingSkipped skipped" "window p = c1 @ window p1"
      "flattenList sourceTokens list @ triviaTokens skipped @ window p1 =
       flattenList sourceTokens buffer @ window p"
    by (auto simp add: concat_singletons)
  define token where "token = fst (expect closeKind p1)"
  define p2 where "p2 = snd (expect closeKind p1)"
  define closeToken where "closeToken = fst (prependTrivia_Token token skipped)"
  have lex1: "list_all isLexed (window p1)"
    using lex body(3) by simp
  obtain c2 where c2: "window p1 = c2 @ window p2" "sourceTokens token = concat (map (\<lambda>t. [t]) c2)"
    using expect_attaches [OF attaches_sourceTokens lex1, of closeKind] kinds(2)
    unfolding token_def p2_def by blast
  have close: "sourceTokens closeToken = triviaTokens skipped @ sourceTokens token"
    using prependTrivia_Token_attaches(2) [OF attaches_sourceTokens body(2), of token]
    by (simp add: closeToken_def concat_singletons)
  have result: "parseSeparatedListInto IsExpected IsEnd parseItem buffer closeKind separatorKind c p =
                  Some (list, closeToken, p2)"
    using body(1)
    by (simp add: parseSeparatedListInto_def split_beta token_def p2_def closeToken_def)
  have triv: "trivia closeToken = (if skipped = emptyTrivia then [] else [skipped]) @ trivia token"
    using pendingSkipped_kind [OF body(2)]
    by (auto simp add: closeToken_def prependTrivia_Token_def)
  have "flattenList sourceTokens list @ sourceTokens closeToken @ window p2 =
        flattenList sourceTokens buffer @ window p"
    using body(4) close c2 by (simp add: concat_singletons)
  then show ?thesis using body(1,2) result triv unfolding token_def by blast
qed

lemma residualSource_items:
  "parseListItems isIdentifierOrComma isEndOfParenList parseIdentifier [] Comma (DiagCode 1)
     (parserOn residualSource 9) =
   Some ([TOS_Node (SyntaxNode 0 [TOS_Token tokA])], skippedTrivia [tokPercent],
         \<lparr>window = [tokClose, tokEOF], sourceEnd = 9, lastConsumed = Some tokPercent,
           diagnostics = [Diagnostic (DiagCode 1) 4 []]\<rparr>)"
  by code_simp

lemma residualSource_result:
  "parseSeparatedListInto isIdentifierOrComma isEndOfParenList parseIdentifier []
     CloseParenthesis Comma (DiagCode 1) (parserOn residualSource 9) =
   Some ([TOS_Node (SyntaxNode 0 [TOS_Token tokA])],
         withTrivia tokClose [skippedTrivia [tokPercent]],
         \<lparr>window = [tokEOF], sourceEnd = 9, lastConsumed = Some tokClose,
           diagnostics = [Diagnostic (DiagCode 1) 4 []]\<rparr>)"
  by code_simp

theorem skipped_runs_attached_once_witness:
  "list_all isLexed (window (parserOn residualSource 9))
   \<and> itemPreserves sourceTokens (\<lambda>t. [t]) parseIdentifier
   \<and> itemProgresses isIdentifierOrComma isEndOfParenList Comma parseIdentifier
   \<and> Comma \<noteq> EndOfFile \<and> CloseParenthesis \<noteq> EndOfFile
   \<and> pendingSkipped (skippedTrivia [tokPercent])
   \<and> trivia (withTrivia tokClose [skippedTrivia [tokPercent]]) = [skippedTrivia [tokPercent]]
   \<and> flattenList sourceTokens [TOS_Node (SyntaxNode 0 [TOS_Token tokA])] @
       sourceTokens (withTrivia tokClose [skippedTrivia [tokPercent]]) @ [tokEOF] =
       residualSource"
proof -
  have h1: "list_all isLexed (window (parserOn residualSource 9))"
    by (simp add: residualSource_def example_defs tokEOF_def isLexed_def isSkipped_def)
  have h2: "itemPreserves sourceTokens (\<lambda>t. [t]) parseIdentifier"
    by (rule parseIdentifier_preserves [OF attaches_sourceTokens])
  have h3: "itemProgresses isIdentifierOrComma isEndOfParenList Comma parseIdentifier"
    by (rule parseIdentifier_progresses)
  have h4: "Comma \<noteq> EndOfFile" and h5: "CloseParenthesis \<noteq> EndOfFile"
    by simp_all
  from skipped_runs_attached_once [OF h1 h2 h3 h4 h5, of "[]" "DiagCode 1"]
  have "pendingSkipped (skippedTrivia [tokPercent])
        \<and> trivia (withTrivia tokClose [skippedTrivia [tokPercent]]) =
            (if skippedTrivia [tokPercent] = emptyTrivia then [] else [skippedTrivia [tokPercent]]) @
            trivia (fst (expect CloseParenthesis
                     \<lparr>window = [tokClose, tokEOF], sourceEnd = 9, lastConsumed = Some tokPercent,
                       diagnostics = [Diagnostic (DiagCode 1) 4 []]\<rparr>))
        \<and> flattenList sourceTokens [TOS_Node (SyntaxNode 0 [TOS_Token tokA])] @
            sourceTokens (withTrivia tokClose [skippedTrivia [tokPercent]]) @ [tokEOF] =
            window (parserOn residualSource 9)"
    using residualSource_items residualSource_result by simp
  then show ?thesis using h1 h2 h3
    by (simp add: parserOn_def expect_match peek_def tokClose_def)
qed

section \<open>Properties of the diagnostics reported\<close>


















section \<open>Claims about expect\<close>



section \<open>Properties of the hierarchy symbols\<close>

lemma members_addMember [simp]: "members (addMember m s) = members s @ [m]"
  by (simp add: addMember_def)

lemma members_addMembers: "members (addMembers ms s) = members s @ ms"
  unfolding addMembers_def
  by (induction ms arbitrary: s) simp_all

lemma genvarAt_Suc_Some:
  "genvarAt bind env syn (Suc n) = Some w \<Longrightarrow> \<exists>v. genvarAt bind env syn n = Some v"
  by (simp split: option.splits)

lemma genvarAt_add_Some:
  "genvarAt bind env syn (k + d) = Some w \<Longrightarrow> \<exists>v. genvarAt bind env syn k = Some v"
proof (induction d arbitrary: w)
  case 0
  then show ?case by simp
next
  case (Suc d)
  have "genvarAt bind env syn (Suc (k + d)) = Some w"
    using Suc.prems by (simp only: add_Suc_right)
  from genvarAt_Suc_Some [OF this]
  obtain v where "genvarAt bind env syn (k + d) = Some v" by blast
  then show ?case by (rule Suc.IH)
qed

lemma conditionAt_Some_genvar:
  "conditionAt bind env syn n = Some b \<Longrightarrow> \<exists>v. genvarAt bind env syn n = Some v"
  by (simp add: conditionAt_def split: option.splits)

lemma generateLoop_returns:
  "\<exists>r. generateLoop bind elaborate env syn count v blocks = Some r"
proof (induction "maxGenerateIterations - count" arbitrary: count v blocks rule: less_induct)
  case less
  show ?case
  proof (cases "bind ((genvar syn, v) # env) (stopExpr syn)")
    case BadValue
    then show ?thesis by (simp add: generateLoop.simps [of _ _ _ _ count])
  next
    case stop: (IntegerValue c)
    show ?thesis
    proof (cases "c = 0 \<or> maxGenerateIterations \<le> count")
      case True
      then show ?thesis using stop by (auto simp add: generateLoop.simps [of _ _ _ _ count])
    next
      case within: False
      show ?thesis
      proof (cases "bind ((genvar syn, v) # env) (iterationExpr syn)")
        case BadValue
        then show ?thesis using stop within
          by (simp add: generateLoop.simps [of _ _ _ _ count])
      next
        case step: (IntegerValue v')
        have "maxGenerateIterations - Suc count < maxGenerateIterations - count"
          using within by arith
        from less [OF this]
        obtain r where "generateLoop bind elaborate env syn (Suc count) v'
                          (blocks @ [iterationBlock elaborate syn v]) = Some r"
          by blast
        then show ?thesis using stop within step
          by (simp add: generateLoop.simps [of _ _ _ _ count])
      qed
    qed
  qed
qed

lemma generateLoop_unroll:
  "genvarAt bind env syn k = Some v \<Longrightarrow>
   genvarAt bind env syn (k + d) = Some w \<Longrightarrow>
   (\<forall>i<d. conditionAt bind env syn (k + i) = Some True) \<Longrightarrow>
   k + d \<le> maxGenerateIterations \<Longrightarrow>
   generateLoop bind elaborate env syn k v blocks =
   generateLoop bind elaborate env syn (k + d) w
     (blocks @ map (\<lambda>i. iterationBlock elaborate syn (the (genvarAt bind env syn i)))
                 [k..<k + d])"
proof (induction d arbitrary: k v blocks)
  case 0
  then show ?case by simp
next
  case (Suc d)
  have cond: "conditionAt bind env syn k = Some True"
    using Suc.prems(3) [rule_format, of 0] by simp
  then have stop: "\<exists>c. bind ((genvar syn, v) # env) (stopExpr syn) = IntegerValue c \<and> c \<noteq> 0"
    using Suc.prems(1) by (simp add: conditionAt_def split: ConstantValue.splits)
  have w: "genvarAt bind env syn (Suc k + d) = Some w"
    using Suc.prems(2) by (simp only: add_Suc add_Suc_right)
  from genvarAt_add_Some [OF this]
  obtain v' where v': "genvarAt bind env syn (Suc k) = Some v'" by blast
  have step: "bind ((genvar syn, v) # env) (iterationExpr syn) = IntegerValue v'"
    using Suc.prems(1) v' by (simp split: ConstantValue.splits)
  have unfold: "generateLoop bind elaborate env syn k v blocks =
                generateLoop bind elaborate env syn (Suc k) v'
                  (blocks @ [iterationBlock elaborate syn v])"
    using stop step Suc.prems(4)
    by (subst generateLoop.simps) auto
  have rest: "generateLoop bind elaborate env syn (Suc k) v'
                (blocks @ [iterationBlock elaborate syn v]) =
              generateLoop bind elaborate env syn (Suc k + d) w
                ((blocks @ [iterationBlock elaborate syn v]) @
                 map (\<lambda>i. iterationBlock elaborate syn (the (genvarAt bind env syn i)))
                   [Suc k..<Suc k + d])"
  proof (rule Suc.IH [OF v'])
    show "genvarAt bind env syn (Suc k + d) = Some w"
      by (rule w)
    show "\<forall>i<d. conditionAt bind env syn (Suc k + i) = Some True"
      using Suc.prems(3) by (metis add_Suc_shift Suc_less_eq)
    show "Suc k + d \<le> maxGenerateIterations"
      using Suc.prems(4) by simp
  qed
  have "[k..<k + Suc d] = k # [Suc k..<Suc k + d]"
    by (simp add: upt_rec)
  then show ?case using unfold rest Suc.prems(1) by simp
qed

lemma generateLoop_finishes:
  assumes "n \<le> maxGenerateIterations"
    and "\<forall>i<n. conditionAt bind env syn i = Some True"
    and "conditionAt bind env syn n = Some False"
    and "bind env (initialExpr syn) = IntegerValue v0"
  shows "generateLoop bind elaborate env syn 0 v0 [] =
           Some (Inr (map (\<lambda>i. iterationBlock elaborate syn (the (genvarAt bind env syn i)))
                        [0..<n]))"
proof -
  obtain w where w: "genvarAt bind env syn n = Some w"
    using conditionAt_Some_genvar [OF assms(3)] by auto
  have v0: "genvarAt bind env syn 0 = Some v0"
    using assms(4) by simp
  have "generateLoop bind elaborate env syn 0 v0 [] =
        generateLoop bind elaborate env syn (0 + n) w
          ([] @ map (\<lambda>i. iterationBlock elaborate syn (the (genvarAt bind env syn i)))
                  [0..<0 + n])"
    using w assms(1,2) by (intro generateLoop_unroll [OF v0]) simp_all
  moreover have "bind ((genvar syn, w) # env) (stopExpr syn) = IntegerValue 0"
    using assms(3) w by (simp add: conditionAt_def split: ConstantValue.splits)
  ultimately show ?thesis
    by (simp add: generateLoop.simps [of _ _ _ _ n])
qed

lemma generateLoop_exceeds:
  assumes "\<forall>i\<le>maxGenerateIterations. conditionAt bind env syn i = Some True"
    and "bind env (initialExpr syn) = IntegerValue v0"
  shows "generateLoop bind elaborate env syn 0 v0 [] = Some (Inl IterationCapExceeded)"
proof -
  have last: "conditionAt bind env syn maxGenerateIterations = Some True"
    using assms(1) by simp
  obtain w where w: "genvarAt bind env syn maxGenerateIterations = Some w"
    using conditionAt_Some_genvar [OF last] by auto
  have v0: "genvarAt bind env syn 0 = Some v0"
    using assms(2) by simp
  have "generateLoop bind elaborate env syn 0 v0 [] =
        generateLoop bind elaborate env syn (0 + maxGenerateIterations) w
          ([] @ map (\<lambda>i. iterationBlock elaborate syn (the (genvarAt bind env syn i)))
                  [0..<0 + maxGenerateIterations])"
    using w assms(1) by (intro generateLoop_unroll [OF v0]) simp_all
  moreover have "\<exists>c. bind ((genvar syn, w) # env) (stopExpr syn) = IntegerValue c \<and> c \<noteq> 0"
    using last w by (simp add: conditionAt_def split: ConstantValue.splits)
  ultimately show ?thesis
    by (auto simp add: generateLoop.simps [of _ _ _ _ maxGenerateIterations])
qed

lemma initial_of_condition:
  "conditionAt bind env syn n = Some b \<Longrightarrow> \<exists>v0. bind env (initialExpr syn) = IntegerValue v0"
proof -
  assume "conditionAt bind env syn n = Some b"
  then obtain w where "genvarAt bind env syn (0 + n) = Some w"
    using conditionAt_Some_genvar by fastforce
  then obtain v where "genvarAt bind env syn 0 = Some v"
    using genvarAt_add_Some by blast
  then show ?thesis by (simp split: ConstantValue.splits)
qed

lemma generateLoop_bound:
  "generateLoop bind elaborate env syn count v blocks = Some (Inr bs) \<Longrightarrow>
   count \<le> maxGenerateIterations \<Longrightarrow>
   length bs + count \<le> length blocks + maxGenerateIterations"
proof (induction "maxGenerateIterations - count" arbitrary: count v blocks rule: less_induct)
  case less
  show ?case
  proof (cases "bind ((genvar syn, v) # env) (stopExpr syn)")
    case BadValue
    then show ?thesis using less.prems(1)
      by (simp add: generateLoop.simps [of _ _ _ _ count])
  next
    case stop: (IntegerValue c)
    show ?thesis
    proof (cases "c = 0")
      case True
      then show ?thesis using less.prems stop
        by (simp add: generateLoop.simps [of _ _ _ _ count])
    next
      case nonzero: False
      show ?thesis
      proof (cases "maxGenerateIterations \<le> count")
        case True
        then show ?thesis using less.prems(1) stop nonzero
          by (simp add: generateLoop.simps [of _ _ _ _ count])
      next
        case within: False
        show ?thesis
        proof (cases "bind ((genvar syn, v) # env) (iterationExpr syn)")
          case BadValue
          then show ?thesis using less.prems(1) stop nonzero within
            by (simp add: generateLoop.simps [of _ _ _ _ count])
        next
          case step: (IntegerValue v')
          have run: "generateLoop bind elaborate env syn (Suc count) v'
                       (blocks @ [iterationBlock elaborate syn v]) = Some (Inr bs)"
            using less.prems(1) stop nonzero within step
            by (simp add: generateLoop.simps [of _ _ _ _ count])
          have smaller: "maxGenerateIterations - Suc count < maxGenerateIterations - count"
            using within by arith
          have "Suc count \<le> maxGenerateIterations" using within by simp
          from less.hyps [OF smaller run this]
          have "length bs + Suc count \<le>
                  length (blocks @ [iterationBlock elaborate syn v]) + maxGenerateIterations" .
          then show ?thesis by simp
        qed
      qed
    qed
  qed
qed

lemma fromSyntax_returns:
  "\<exists>r. GenerateBlockArraySymbol_fromSyntax bind elaborate env syn = Some r"
proof (cases "bind env (initialExpr syn)")
  case BadValue
  then show ?thesis by (simp add: GenerateBlockArraySymbol_fromSyntax_def)
next
  case (IntegerValue v0)
  obtain r where "generateLoop bind elaborate env syn 0 v0 [] = Some r"
    using generateLoop_returns by blast
  then show ?thesis using IntegerValue
    by (cases r) (simp_all add: GenerateBlockArraySymbol_fromSyntax_def)
qed

lemma array_bound:
  "GenerateBlockArraySymbol_fromSyntax bind elaborate env syn = Some (array, ds) \<Longrightarrow>
   length (members array) \<le> maxGenerateIterations"
proof (cases "bind env (initialExpr syn)")
  case BadValue
  assume "GenerateBlockArraySymbol_fromSyntax bind elaborate env syn = Some (array, ds)"
  then show ?thesis using BadValue
    by (auto simp add: GenerateBlockArraySymbol_fromSyntax_def GenerateBlockArraySymbol_def)
next
  case (IntegerValue v0)
  assume a: "GenerateBlockArraySymbol_fromSyntax bind elaborate env syn = Some (array, ds)"
  obtain r where r: "generateLoop bind elaborate env syn 0 v0 [] = Some r"
    using generateLoop_returns by blast
  show ?thesis
  proof (cases r)
    case (Inl e)
    then show ?thesis using a r IntegerValue
      by (auto simp add: GenerateBlockArraySymbol_fromSyntax_def GenerateBlockArraySymbol_def)
  next
    case (Inr bs)
    have "length bs + 0 \<le> length ([]::Symbol list) + maxGenerateIterations"
      by (rule generateLoop_bound [OF r [unfolded Inr]]) simp
    then show ?thesis using a r Inr IntegerValue
      by (auto simp add: GenerateBlockArraySymbol_fromSyntax_def GenerateBlockArraySymbol_def
                         members_addMembers)
  qed
qed

lemma addMembers_kind: "symbolKind (addMembers ms s) = symbolKind s"
  unfolding addMembers_def
  by (induction ms arbitrary: s) (simp_all add: addMember_def)

lemma array_placeholder:
  "GenerateBlockArraySymbol_fromSyntax bind elaborate env syn = Some (array, errors) \<Longrightarrow>
   symbolKind array = GenerateBlockArray \<and> (errors \<noteq> [] \<longrightarrow> members array = [])"
  by (auto simp add: GenerateBlockArraySymbol_fromSyntax_def GenerateBlockArraySymbol_def
                     addMembers_kind Let_def
           split: ConstantValue.splits option.splits sum.splits)

lemma loopThrice_conditions:
  "conditionAt evalConstant [] loopThrice 0 = Some True"
  "conditionAt evalConstant [] loopThrice 1 = Some True"
  "conditionAt evalConstant [] loopThrice 2 = Some True"
  "conditionAt evalConstant [] loopThrice 3 = Some False"
  by code_simp+

lemma loopThrice_fields:
  "genvar loopThrice = ''i''"
  "initialExpr loopThrice = Literal 0"
  "stopExpr loopThrice = Less (NameRef ''i'') (Literal 3)"
  "iterationExpr loopThrice = Add (NameRef ''i'') (Literal 1)"
  "loopBlock loopThrice = \<lparr>blockName = Some ''g'', blockLocation = 5, blockMembers = []\<rparr>"
  by (simp_all add: loopThrice_def)

lemma loopThrice_values:
  "genvarAt evalConstant [] loopThrice 0 = Some 0"
  "genvarAt evalConstant [] loopThrice 1 = Some 1"
  "genvarAt evalConstant [] loopThrice 2 = Some 2"
  by code_simp+

lemma loopForever_fields:
  "genvar loopForever = ''i''"
  "initialExpr loopForever = Literal 0"
  "stopExpr loopForever = Literal 1"
  "iterationExpr loopForever = Add (NameRef ''i'') (Literal 1)"
  "loopBlock loopForever = \<lparr>blockName = None, blockLocation = 5, blockMembers = []\<rparr>"
  by (simp_all add: loopForever_def)

lemma loopForever_value: "genvarAt evalConstant [] loopForever i = Some (int i)"
  by (induction i) (simp_all add: loopForever_fields)

lemma loopForever_condition: "conditionAt evalConstant [] loopForever i = Some True"
  by (simp add: conditionAt_def loopForever_value loopForever_fields)

section \<open>Claims about the hierarchy symbols\<close>

text \<open>
  Claim C6. \<open>GenerateBlockArraySymbol::fromSyntax\<close> evaluates the initial, condition and
  step expressions through the binder, and the cap on its iterations is at least \<open>2^16\<close>.
  The elaboration of every loop-generate returns, whatever the binder answers. A loop
  whose condition holds for the first \<open>n\<close> values of the genvar and fails for the next,
  with \<open>n\<close> within the cap, yields the array with exactly one block per iteration, in
  order, and no error; each block has as first member the implicit parameter named after
  the genvar and bound to the value of that iteration. A loop whose condition still holds
  after as many iterations as the cap allows yields the iteration-cap error and the array
  without any block: the error is fatal for that array and for nothing else, the caller
  is returned the array symbol as for any other loop. Every result is an array symbol
  with at most as many blocks as the cap allows, and with none if an error is reported.
\<close>

theorem loop_generate_elaborates:
  "2 ^ 16 \<le> maxGenerateIterations
   \<and> (\<exists>array errors.
         GenerateBlockArraySymbol_fromSyntax bind elaborate env syn = Some (array, errors))
   \<and> (n \<le> maxGenerateIterations \<and>
       (\<forall>i<n. conditionAt bind env syn i = Some True) \<and>
       conditionAt bind env syn n = Some False \<longrightarrow>
         GenerateBlockArraySymbol_fromSyntax bind elaborate env syn =
           Some (addMembers
                   (map (\<lambda>i. iterationBlock elaborate syn (the (genvarAt bind env syn i))) [0..<n])
                   (GenerateBlockArraySymbol
                      (case blockName (loopBlock syn) of None \<Rightarrow> [] | Some l \<Rightarrow> l)
                      (blockLocation (loopBlock syn))),
                 []))
   \<and> ((\<forall>i\<le>maxGenerateIterations. conditionAt bind env syn i = Some True) \<longrightarrow>
         GenerateBlockArraySymbol_fromSyntax bind elaborate env syn =
           Some (GenerateBlockArraySymbol
                   (case blockName (loopBlock syn) of None \<Rightarrow> [] | Some l \<Rightarrow> l)
                   (blockLocation (loopBlock syn)),
                 [IterationCapExceeded]))
   \<and> members (iterationBlock elaborate syn v) =
       implicitParameter (genvar syn) (blockLocation (loopBlock syn)) v #
       elaborate (blockMembers (loopBlock syn))
   \<and> (GenerateBlockArraySymbol_fromSyntax bind elaborate env syn = Some (array, errors) \<longrightarrow>
         symbolKind array = GenerateBlockArray
         \<and> length (members array) \<le> maxGenerateIterations
         \<and> (errors \<noteq> [] \<longrightarrow> members array = []))"
proof (intro conjI impI)
  show "2 ^ 16 \<le> maxGenerateIterations"
    by (simp add: maxGenerateIterations_def)
next
  show "\<exists>array errors.
          GenerateBlockArraySymbol_fromSyntax bind elaborate env syn = Some (array, errors)"
    using fromSyntax_returns [of bind elaborate env syn] by auto
next
  assume a: "n \<le> maxGenerateIterations \<and>
             (\<forall>i<n. conditionAt bind env syn i = Some True) \<and>
             conditionAt bind env syn n = Some False"
  then have n: "n \<le> maxGenerateIterations" by simp
  obtain v0 where v0: "bind env (initialExpr syn) = IntegerValue v0"
    using a initial_of_condition by blast
  have "generateLoop bind elaborate env syn 0 v0 [] =
          Some (Inr (map (\<lambda>i. iterationBlock elaborate syn (the (genvarAt bind env syn i)))
                       [0..<n]))"
    using a by (intro generateLoop_finishes [where bind = bind, OF n _ _ v0]) simp_all
  then show "GenerateBlockArraySymbol_fromSyntax bind elaborate env syn =
           Some (addMembers
                   (map (\<lambda>i. iterationBlock elaborate syn (the (genvarAt bind env syn i))) [0..<n])
                   (GenerateBlockArraySymbol
                      (case blockName (loopBlock syn) of None \<Rightarrow> [] | Some l \<Rightarrow> l)
                      (blockLocation (loopBlock syn))),
                 [])"
    using v0 by (simp add: GenerateBlockArraySymbol_fromSyntax_def)
next
  assume a: "\<forall>i\<le>maxGenerateIterations. conditionAt bind env syn i = Some True"
  then have "conditionAt bind env syn 0 = Some True" by simp
  then obtain v0 where v0: "bind env (initialExpr syn) = IntegerValue v0"
    using initial_of_condition by blast
  have "generateLoop bind elaborate env syn 0 v0 [] = Some (Inl IterationCapExceeded)"
    by (rule generateLoop_exceeds [OF a v0])
  then show "GenerateBlockArraySymbol_fromSyntax bind elaborate env syn =
           Some (GenerateBlockArraySymbol
                   (case blockName (loopBlock syn) of None \<Rightarrow> [] | Some l \<Rightarrow> l)
                   (blockLocation (loopBlock syn)),
                 [IterationCapExceeded])"
    using v0 by (simp add: GenerateBlockArraySymbol_fromSyntax_def)
next
  show "members (iterationBlock elaborate syn v) =
           implicitParameter (genvar syn) (blockLocation (loopBlock syn)) v #
           elaborate (blockMembers (loopBlock syn))"
    by (simp add: iterationBlock_def members_addMembers GenerateBlockSymbol_def)
next
  assume r: "GenerateBlockArraySymbol_fromSyntax bind elaborate env syn = Some (array, errors)"
  show "symbolKind array = GenerateBlockArray"
    using array_placeholder [OF r] by simp
  show "length (members array) \<le> maxGenerateIterations"
    using r by (rule array_bound)
  assume "errors \<noteq> []"
  then show "members array = []"
    using array_placeholder [OF r] by simp
qed

theorem loop_generate_elaborates_witness:
  "conditionAt evalConstant [] loopThrice 0 = Some True
   \<and> conditionAt evalConstant [] loopThrice 1 = Some True
   \<and> conditionAt evalConstant [] loopThrice 2 = Some True
   \<and> conditionAt evalConstant [] loopThrice 3 = Some False
   \<and> GenerateBlockArraySymbol_fromSyntax evalConstant (\<lambda>ms. []) [] loopThrice =
       Some (Symbol GenerateBlockArray ''g'' 5
               [Symbol GenerateBlock [] 5 [Symbol Parameter ''i'' 5 [] None (Some (IntegerValue 0))]
                  None None,
                Symbol GenerateBlock [] 5 [Symbol Parameter ''i'' 5 [] None (Some (IntegerValue 1))]
                  None None,
                Symbol GenerateBlock [] 5 [Symbol Parameter ''i'' 5 [] None (Some (IntegerValue 2))]
                  None None]
               None None,
             [])
   \<and> conditionAt evalConstant [] loopForever 0 = Some True
   \<and> conditionAt evalConstant [] loopForever maxGenerateIterations = Some True
   \<and> GenerateBlockArraySymbol_fromSyntax evalConstant (\<lambda>ms. []) [] loopForever =
       Some (Symbol GenerateBlockArray [] 5 [] None None, [IterationCapExceeded])"
proof -
  have conds: "\<forall>i<3. conditionAt evalConstant [] loopThrice i = Some True"
  proof (intro allI impI)
    fix i :: nat
    assume "i < 3"
    then have "i = 0 \<or> i = 1 \<or> i = 2" by auto
    then show "conditionAt evalConstant [] loopThrice i = Some True"
      using loopThrice_conditions(1-3) by auto
  qed
  have cap: "3 \<le> maxGenerateIterations" by (simp add: maxGenerateIterations_def)
  have up: "[0..<3] = [0, 1, 2::nat]" by (simp add: upt_rec)
  from loop_generate_elaborates
         [where n = 3 and bind = evalConstant and env = "[]" and syn = loopThrice
            and elaborate = "\<lambda>ms. []"]
  have "GenerateBlockArraySymbol_fromSyntax evalConstant (\<lambda>ms. []) [] loopThrice =
          Some (addMembers
                  (map (\<lambda>i. iterationBlock (\<lambda>ms. []) loopThrice
                               (the (genvarAt evalConstant [] loopThrice i))) [0..<3])
                  (GenerateBlockArraySymbol
                     (case blockName (loopBlock loopThrice) of None \<Rightarrow> [] | Some l \<Rightarrow> l)
                     (blockLocation (loopBlock loopThrice))),
                [])"
    using conds cap loopThrice_conditions(4) by simp
  then have thrice:
    "GenerateBlockArraySymbol_fromSyntax evalConstant (\<lambda>ms. []) [] loopThrice =
       Some (Symbol GenerateBlockArray ''g'' 5
               [Symbol GenerateBlock [] 5 [Symbol Parameter ''i'' 5 [] None (Some (IntegerValue 0))]
                  None None,
                Symbol GenerateBlock [] 5 [Symbol Parameter ''i'' 5 [] None (Some (IntegerValue 1))]
                  None None,
                Symbol GenerateBlock [] 5 [Symbol Parameter ''i'' 5 [] None (Some (IntegerValue 2))]
                  None None]
               None None,
             [])"
    by (simp add: up loopThrice_values loopThrice_fields iterationBlock_def
                  implicitParameter_def addMembers_def addMember_def GenerateBlockSymbol_def
                  GenerateBlockArraySymbol_def)
  from loop_generate_elaborates
         [where bind = evalConstant and env = "[]" and syn = loopForever
            and elaborate = "\<lambda>ms. []"]
  have forever:
    "GenerateBlockArraySymbol_fromSyntax evalConstant (\<lambda>ms. []) [] loopForever =
       Some (Symbol GenerateBlockArray [] 5 [] None None, [IterationCapExceeded])"
    by (simp add: loopForever_condition loopForever_fields GenerateBlockArraySymbol_def)
  show ?thesis
    using loopThrice_conditions thrice forever
    by (simp add: loopForever_condition)
qed

text \<open>
  Claim C7. For an if-generate, \<open>fromSyntax\<close> returns the then-branch block when the guard
  evaluates to a non-zero constant, the else-branch block when it evaluates to zero and
  there is an else clause, and null otherwise; on null the parent scope gains no member.
\<close>

theorem if_generate_selects:
  "(bind env (condition syn) = IntegerValue v \<and> v \<noteq> 0 \<longrightarrow>
      GenerateBlockSymbol_fromSyntax bind elaborate env syn =
        Some (generateBlock elaborate (thenBlock syn)))
   \<and> (bind env (condition syn) = IntegerValue 0 \<and> elseClause syn = Some b \<longrightarrow>
        GenerateBlockSymbol_fromSyntax bind elaborate env syn = Some (generateBlock elaborate b))
   \<and> (bind env (condition syn) = BadValue \<or>
       bind env (condition syn) = IntegerValue 0 \<and> elseClause syn = None \<longrightarrow>
        GenerateBlockSymbol_fromSyntax bind elaborate env syn = None)
   \<and> (GenerateBlockSymbol_fromSyntax bind elaborate env syn = None \<longrightarrow>
        addIfGenerate bind elaborate env syn parent = parent)"
  by (auto simp add: GenerateBlockSymbol_fromSyntax_def addIfGenerate_def)

theorem if_generate_selects_witness:
  "evalConstant [] (condition ifZero) = IntegerValue 0 \<and> elseClause ifZero = None
   \<and> GenerateBlockSymbol_fromSyntax evalConstant (\<lambda>ms. []) [] ifZero = None
   \<and> addIfGenerate evalConstant (\<lambda>ms. []) [] ifZero (Symbol Root ''$root'' 0 [] None None) =
       Symbol Root ''$root'' 0 [] None None
   \<and> evalConstant [] (condition (ifZero\<lparr>condition := Literal 1\<rparr>)) = IntegerValue 1
   \<and> GenerateBlockSymbol_fromSyntax evalConstant (\<lambda>ms. []) [] (ifZero\<lparr>condition := Literal 1\<rparr>) =
       Some (Symbol GenerateBlock [] 3 [] None None)
   \<and> elseClause (ifZero\<lparr>elseClause :=
                     Some \<lparr>blockName = Some ''e'', blockLocation = 7, blockMembers = []\<rparr>\<rparr>) =
       Some \<lparr>blockName = Some ''e'', blockLocation = 7, blockMembers = []\<rparr>
   \<and> GenerateBlockSymbol_fromSyntax evalConstant (\<lambda>ms. []) []
        (ifZero\<lparr>elseClause :=
                  Some \<lparr>blockName = Some ''e'', blockLocation = 7, blockMembers = []\<rparr>\<rparr>) =
       Some (Symbol GenerateBlock ''e'' 7 [] None None)"
  using if_generate_selects
          [where bind = evalConstant and env = "[]" and syn = ifZero and elaborate = "\<lambda>ms. []"
             and parent = "Symbol Root ''$root'' 0 [] None None"]
        if_generate_selects
          [where bind = evalConstant and env = "[]" and syn = "ifZero\<lparr>condition := Literal 1\<rparr>"
             and elaborate = "\<lambda>ms. []" and v = 1]
        if_generate_selects
          [where bind = evalConstant and env = "[]" and elaborate = "\<lambda>ms. []"
             and syn = "ifZero\<lparr>elseClause :=
                          Some \<lparr>blockName = Some ''e'', blockLocation = 7, blockMembers = []\<rparr>\<rparr>"
             and b = "\<lparr>blockName = Some ''e'', blockLocation = 7, blockMembers = []\<rparr>"]
  by (simp add: ifZero_def generateBlock_def addMembers_def GenerateBlockSymbol_def)

text \<open>
  Claim C8. The sequential block of a block statement is named by the statement's label,
  or has the empty name when there is none, and its statement-bodied scope holds the
  statement tree.
\<close>

theorem sequential_block_fromSyntax:
  "symbolKind (SequentialBlockSymbol_fromSyntax syn) = SequentialBlock
   \<and> name (SequentialBlockSymbol_fromSyntax syn) =
       (case blockLabel syn of None \<Rightarrow> [] | Some l \<Rightarrow> l)
   \<and> body (SequentialBlockSymbol_fromSyntax syn) = Some (items syn)
   \<and> symbolLocation (SequentialBlockSymbol_fromSyntax syn) = beginLocation syn
   \<and> members (SequentialBlockSymbol_fromSyntax syn) = []"
  by (simp add: SequentialBlockSymbol_fromSyntax_def SequentialBlockSymbol_def setName_def
                setBody_def)

theorem sequential_block_fromSyntax_witness:
  "name (SequentialBlockSymbol_fromSyntax
           \<lparr>blockLabel = Some ''blk'', beginLocation = 4, items = SyntaxNode 0 []\<rparr>) = ''blk''
   \<and> name (SequentialBlockSymbol_fromSyntax
           \<lparr>blockLabel = None, beginLocation = 4, items = SyntaxNode 0 []\<rparr>) = []
   \<and> body (SequentialBlockSymbol_fromSyntax
           \<lparr>blockLabel = None, beginLocation = 4, items = SyntaxNode 0 []\<rparr>) =
       Some (SyntaxNode 0 [])"
  using sequential_block_fromSyntax
          [of "\<lparr>blockLabel = Some ''blk'', beginLocation = 4, items = SyntaxNode 0 []\<rparr>"]
        sequential_block_fromSyntax
          [of "\<lparr>blockLabel = None, beginLocation = 4, items = SyntaxNode 0 []\<rparr>"]
  by simp

end
